theory Spec2Isabelle
  imports Main "HOL-Library.Word"
begin

unbundle bit_operations_syntax

section \<open>The nf_tables rule-chain evaluator (net/netfilter/nf_tables_core.c)\<close>

text \<open>
  A shallow embedding of \<^verbatim>\<open>nft_cmp_fast_eval\<close>, \<^verbatim>\<open>nft_payload_fast_eval\<close>,
  \<^verbatim>\<open>nft_trace_packet\<close> and \<^verbatim>\<open>nft_do_chain\<close>. Pointers to chains are natural numbers
  (addresses) looked up in a memory of chains; the C locals of \<^verbatim>\<open>nft_do_chain\<close> and the
  memory it writes (statistics, trace output, kernel log) are the fields of one state
  record that every function takes and returns.
\<close>

subsection \<open>Machine integers and constants\<close>

type_synonym u8 = "8 word"
type_synonym u32 = "32 word"
type_synonym u64 = "64 word"

text \<open>
  Modelled from the spec: the verdict codes of its data model (\<open>Continue\<close>, \<open>Break\<close>,
  \<open>Jump\<close>, \<open>Goto\<close>, \<open>Return\<close>, and the dispositions \<open>Accept\<close>, \<open>Drop\<close>, \<open>Queue\<close>,
  \<open>Stolen\<close>). The C file names them by the macros and enumerators below, which are declared
  in headers (linux/netfilter.h, linux/netfilter/nf_tables.h) that are not part of the
  sources at hand; the numbers are those of the kernel's binary interface. The code is an
  unsigned 32-bit field, so the negative enumerators are stored modulo \<open>2 ^ 32\<close>.
\<close>

definition NF_DROP :: u32 where "NF_DROP = 0"
definition NF_ACCEPT :: u32 where "NF_ACCEPT = 1"
definition NF_STOLEN :: u32 where "NF_STOLEN = 2"
definition NF_QUEUE :: u32 where "NF_QUEUE = 3"
definition NF_VERDICT_MASK :: u32 where "NF_VERDICT_MASK = 0xff"

definition NFT_CONTINUE :: u32 where "NFT_CONTINUE = - 1"
definition NFT_BREAK :: u32 where "NFT_BREAK = - 2"
definition NFT_JUMP :: u32 where "NFT_JUMP = - 3"
definition NFT_GOTO :: u32 where "NFT_GOTO = - 4"
definition NFT_RETURN :: u32 where "NFT_RETURN = - 5"

text \<open>
  Modelled from the spec: the jump stack's fixed capacity (``small constant, e.g. 16'');
  the macro is declared in net/netfilter/nf_tables.h, outside the sources at hand.
\<close>

definition NFT_JUMP_STACK_SIZE :: nat where "NFT_JUMP_STACK_SIZE = 16"

datatype nft_trace_types = NFT_TRACETYPE_POLICY | NFT_TRACETYPE_RETURN | NFT_TRACETYPE_RULE

datatype nft_payload_bases =
  NFT_PAYLOAD_LL_HEADER | NFT_PAYLOAD_NETWORK_HEADER | NFT_PAYLOAD_TRANSPORT_HEADER

subsection \<open>Data\<close>

text \<open>
  \<^verbatim>\<open>struct nft_verdict\<close>: the code and the chain a jump or goto names (a pointer, here
  the chain's address).
\<close>

record nft_verdict =
  verdict_code :: u32
  verdict_chain :: nat

text \<open>
  Modelled from the spec: the register file of one verdict register (code and target chain)
  and the data registers. The C type \<^verbatim>\<open>struct nft_regs\<close> is declared in
  net/netfilter/nf_tables.h, outside the sources at hand, as a union of \<^verbatim>\<open>u32 data[20]\<close>
  with the verdict, so that the first four data registers are the memory of the verdict
  register: \<^verbatim>\<open>verdict.code\<close> is \<^verbatim>\<open>data[0]\<close> and the pointer \<^verbatim>\<open>verdict.chain\<close> lies in \<^verbatim>\<open>data[2]\<close>
  (low half) and \<^verbatim>\<open>data[3]\<close> (high half), the layout of a 64-bit little-endian machine such
  as x86-64, where \<^verbatim>\<open>data[1]\<close> is padding. The register file is therefore the array alone;
  \<open>verdict\<close> reads the verdict register out of it and \<open>verdict_code_store\<close> is the
  assignment \<^verbatim>\<open>regs->verdict.code = c\<close>. Register numbers are checked when a rule is built
  (code outside this file), so the array is a total map from the index to the 32-bit slot.
\<close>

record nft_regs =
  data :: "nat \<Rightarrow> u32"

definition verdict :: "nft_regs \<Rightarrow> nft_verdict" where
  "verdict r = \<lparr>verdict_code = data r 0,
                verdict_chain = unat (data r 2) + 2 ^ 32 * unat (data r 3)\<rparr>"

definition verdict_code_store :: "u32 \<Rightarrow> nft_regs \<Rightarrow> nft_regs" where
  "verdict_code_store c r = r\<lparr>data := (data r)(0 := c)\<rparr>"

text \<open>
  The part of \<^verbatim>\<open>struct sk_buff\<close> the file reads: memory as a map from addresses to bytes,
  the addresses \<^verbatim>\<open>skb_network_header(skb)\<close> and \<^verbatim>\<open>skb_tail_pointer(skb)\<close>, the length
  \<^verbatim>\<open>skb->len\<close> and the flag \<^verbatim>\<open>skb->nf_trace\<close>.
\<close>

record sk_buff =
  skb_mem :: "nat \<Rightarrow> u8"
  skb_network_header :: nat
  skb_tail_pointer :: nat
  skb_len :: u32
  nf_trace :: bool

text \<open>
  \<^verbatim>\<open>struct nft_pktinfo\<close>: the buffer, the transport header offset \<^verbatim>\<open>xt.thoff\<close> and the two
  devices \<^verbatim>\<open>in\<close> and \<^verbatim>\<open>out\<close>, each \<open>None\<close> for a null pointer and otherwise the network
  namespace \<^verbatim>\<open>dev_net\<close> reads from the device.
\<close>

record nft_pktinfo =
  skb :: sk_buff
  thoff :: nat
  pkt_in :: "nat option"
  pkt_out :: "nat option"

text \<open>\<^verbatim>\<open>struct nft_cmp_fast_expr\<close> and \<^verbatim>\<open>struct nft_payload\<close>, the private data of the two
  expressions with a fast path.\<close>

record nft_cmp_fast_expr =
  cmp_data :: u32
  cmp_sreg :: nat
  cmp_len :: nat

record nft_payload =
  pl_base :: nft_payload_bases
  pl_offset :: nat
  pl_len :: nat
  pl_dreg :: nat

text \<open>
  An expression is told apart by its \<^verbatim>\<open>ops\<close> pointer: \<^verbatim>\<open>&nft_cmp_fast_ops\<close>,
  \<^verbatim>\<open>&nft_payload_fast_ops\<close>, or anything else. The function \<^verbatim>\<open>expr->ops->eval\<close> of the
  expression catalogue is not in this file: it is carried by the expression as a function on
  the register file (the packet is passed \<^verbatim>\<open>const\<close>). What an expression does to memory
  other than the register file (its own counters, sets, connection tracking) is not
  modelled.
\<close>

datatype nft_expr =
  Cmp_fast nft_cmp_fast_expr
| Payload_fast nft_payload "nft_regs \<Rightarrow> nft_pktinfo \<Rightarrow> nft_regs"
| Generic "nft_regs \<Rightarrow> nft_pktinfo \<Rightarrow> nft_regs"

record nft_rule =
  genmask :: nat
  exprs :: "nft_expr list"

text \<open>
  A chain with the fields of its enclosing \<^verbatim>\<open>struct nft_base_chain\<close> that the evaluator
  reads through \<^verbatim>\<open>nft_base_chain()\<close>: the default policy and the owning namespace.
\<close>

record nft_chain =
  rules :: "nft_rule list"
  policy :: u32
  pnet :: nat

text \<open>
  What the evaluator reads and does not own: the memory of chains (the chain at each address), the generation cursor
  of each namespace (\<^verbatim>\<open>nft_genmask_cur\<close>), the static key \<^verbatim>\<open>nft_trace_enabled\<close>, and three
  helpers declared outside this file, taken as parameters: the value \<^verbatim>\<open>nft_trace_init\<close>
  leaves in \<^verbatim>\<open>info.trace\<close>, the mask \<^verbatim>\<open>nft_cmp_fast_mask(len)\<close>, and the 32-bit value of four
  bytes of memory in the machine's byte order.
\<close>

record nft_env =
  chain_at :: "nat \<Rightarrow> nft_chain"
  nft_genmask_cur :: "nat \<Rightarrow> nat"
  nft_trace_enabled :: bool
  nft_trace_init :: bool
  nft_cmp_fast_mask :: "nat \<Rightarrow> u32"
  u32_of_bytes :: "u8 list \<Rightarrow> u32"

record nft_stats =
  pkts :: u64
  bytes :: u64

text \<open>\<^verbatim>\<open>struct nft_jumpstack\<close>. A \<^verbatim>\<open>rule\<close> pointer is the position in the chain's list:
  it is modelled by the rules that follow it, which is what
  \<^verbatim>\<open>list_for_each_entry_continue_rcu\<close> walks from it.\<close>

record nft_jumpstack =
  js_chain :: nat
  js_rule :: "nft_rule list"
  js_rulenum :: int

record nft_trace_event =
  ev_chain :: nat
  ev_rulenum :: int
  ev_type :: nft_trace_types

text \<open>
  The state of one call of \<^verbatim>\<open>nft_do_chain\<close>. Locals: \<^verbatim>\<open>chain\<close>, \<^verbatim>\<open>rule\<close>, \<^verbatim>\<open>rulenum\<close>,
  \<^verbatim>\<open>regs\<close>, \<^verbatim>\<open>stackptr\<close>, \<^verbatim>\<open>jumpstack\<close> (memory indexed from the array's start, so that a
  write past its \<^verbatim>\<open>NFT_JUMP_STACK_SIZE\<close> entries can be told) and \<^verbatim>\<open>info.trace\<close>. Memory
  it writes: this CPU's statistics of the base chain, the trace events handed to
  \<^verbatim>\<open>nft_trace_notify\<close> and \<^verbatim>\<open>nf_log_trace\<close>, and the number of \<^verbatim>\<open>WARN_ON\<close> reports. The
  field \<open>evaluated\<close> is a history the C does not keep: the rules whose expressions were
  run, in order, for the properties that speak of them.
\<close>

record nft_state =
  cur_chain :: nat
  cur_rule :: "nft_rule list"
  rulenum :: int
  regs :: nft_regs
  stackptr :: nat
  jumpstack :: "nat \<Rightarrow> nft_jumpstack"
  info_trace :: bool
  stats :: nft_stats
  trace_log :: "nft_trace_event list"
  warnings :: nat
  evaluated :: "nft_rule list"

datatype nft_oops = BUG_ON_jumpstack | NULL_device

text \<open>How one pass through the loop body leaves it: on to the next rule, out of the
  function with a return value, or into \<^verbatim>\<open>BUG_ON\<close>.\<close>

datatype nft_flow =
  Next_rule nft_state
| Return_verdict u32 nft_state
| Oops nft_oops

subsection \<open>Tracing\<close>

definition nft_trace_packet_noinline ::
  "nft_pktinfo \<Rightarrow> nft_state \<Rightarrow> nat \<Rightarrow> int \<Rightarrow> nft_trace_types \<Rightarrow> nft_state" where
  "nft_trace_packet_noinline pkt s c n t =
     (if \<not> info_trace s \<or> \<not> nf_trace (skb pkt) then s
      else s\<lparr>trace_log := trace_log s @ [\<lparr>ev_chain = c, ev_rulenum = n, ev_type = t\<rparr>]\<rparr>)"

definition nft_trace_packet ::
  "nft_env \<Rightarrow> nft_pktinfo \<Rightarrow> nft_state \<Rightarrow> nat \<Rightarrow> int \<Rightarrow> nft_trace_types \<Rightarrow> nft_state" where
  "nft_trace_packet env pkt s c n t =
     (if nft_trace_enabled env then nft_trace_packet_noinline pkt s c n t else s)"

subsection \<open>Expressions\<close>

definition nft_cmp_fast_eval :: "nft_env \<Rightarrow> nft_cmp_fast_expr \<Rightarrow> nft_regs \<Rightarrow> nft_regs" where
  "nft_cmp_fast_eval env priv r =
     (let mask = nft_cmp_fast_mask env (cmp_len priv) in
      if (data r (cmp_sreg priv) AND mask) = cmp_data priv then r
      else verdict_code_store NFT_BREAK r)"

definition nft_payload_ptr :: "nft_payload \<Rightarrow> nft_pktinfo \<Rightarrow> nat" where
  "nft_payload_ptr priv pkt =
     (if pl_base priv = NFT_PAYLOAD_NETWORK_HEADER then skb_network_header (skb pkt)
      else skb_network_header (skb pkt) + thoff pkt) + pl_offset priv"

definition nft_payload_fast_eval ::
  "nft_env \<Rightarrow> nft_payload \<Rightarrow> nft_regs \<Rightarrow> nft_pktinfo \<Rightarrow> bool \<times> nft_regs" where
  "nft_payload_fast_eval env priv r pkt =
     (let ptr = nft_payload_ptr priv pkt; m = skb_mem (skb pkt) in
      if ptr + pl_len priv \<ge> skb_tail_pointer (skb pkt) then (False, r)
      else (True, r\<lparr>data := (data r)(pl_dreg priv :=
              (if pl_len priv = 2 then u32_of_bytes env [m ptr, m (ptr + 1), 0, 0]
               else if pl_len priv = 4 then
                 u32_of_bytes env [m ptr, m (ptr + 1), m (ptr + 2), m (ptr + 3)]
               else u32_of_bytes env [m ptr, 0, 0, 0]))\<rparr>))"

text \<open>The body of \<^verbatim>\<open>nft_rule_for_each_expr\<close> in \<^verbatim>\<open>nft_do_chain\<close>: the dispatch on the
  \<^verbatim>\<open>ops\<close> pointer.\<close>

fun nft_expr_eval :: "nft_env \<Rightarrow> nft_expr \<Rightarrow> nft_regs \<Rightarrow> nft_pktinfo \<Rightarrow> nft_regs" where
  "nft_expr_eval env (Cmp_fast priv) r pkt = nft_cmp_fast_eval env priv r"
| "nft_expr_eval env (Payload_fast priv eval) r pkt =
     (case nft_payload_fast_eval env priv r pkt of
        (True, r') \<Rightarrow> r'
      | (False, r') \<Rightarrow> eval r' pkt)"
| "nft_expr_eval env (Generic eval) r pkt = eval r pkt"

fun nft_rule_for_each_expr ::
  "nft_env \<Rightarrow> nft_expr list \<Rightarrow> nft_regs \<Rightarrow> nft_pktinfo \<Rightarrow> nft_regs" where
  "nft_rule_for_each_expr env [] r pkt = r"
| "nft_rule_for_each_expr env (e # es) r pkt =
     (let r' = nft_expr_eval env e r pkt in
      if verdict_code (verdict r') \<noteq> NFT_CONTINUE then r'
      else nft_rule_for_each_expr env es r' pkt)"

subsection \<open>The evaluator\<close>

text \<open>The assignment at label \<^verbatim>\<open>next_rule\<close>, and the two before it at \<^verbatim>\<open>do_chain\<close>.\<close>

definition next_rule :: "nft_state \<Rightarrow> nft_state" where
  "next_rule s = s\<lparr>regs := verdict_code_store NFT_CONTINUE (regs s)\<rparr>"

definition do_chain :: "nft_env \<Rightarrow> nft_state \<Rightarrow> nft_state" where
  "do_chain env s = next_rule (s\<lparr>rulenum := 0, cur_rule := rules (chain_at env (cur_chain s))\<rparr>)"

text \<open>
  The end of the function, from \<^verbatim>\<open>if (stackptr > 0)\<close>: pop a frame and go to \<^verbatim>\<open>next_rule\<close>,
  or trace the policy, count the packet and return the base chain's policy.
\<close>

definition nft_do_chain_pop :: "nft_env \<Rightarrow> nft_pktinfo \<Rightarrow> nat \<Rightarrow> nft_state \<Rightarrow> nft_flow" where
  "nft_do_chain_pop env pkt basechain s =
     (if stackptr s > 0 then
        let sp = stackptr s - 1; f = jumpstack s sp in
        Next_rule (next_rule (s\<lparr>stackptr := sp, cur_chain := js_chain f,
                                 cur_rule := js_rule f, rulenum := js_rulenum f\<rparr>))
      else
        let s1 = nft_trace_packet env pkt s basechain (- 1) NFT_TRACETYPE_POLICY;
            st = stats s1
        in Return_verdict (policy (chain_at env basechain))
             (s1\<lparr>stats := st\<lparr>pkts := pkts st + 1,
                                bytes := bytes st + ucast (skb_len (skb pkt))\<rparr>\<rparr>))"

text \<open>The shared tail of \<^verbatim>\<open>case NFT_JUMP\<close> and \<^verbatim>\<open>case NFT_GOTO\<close>.\<close>

definition nft_do_chain_goto :: "nft_env \<Rightarrow> nft_pktinfo \<Rightarrow> nft_state \<Rightarrow> nft_flow" where
  "nft_do_chain_goto env pkt s =
     (let s1 = nft_trace_packet env pkt s (cur_chain s) (rulenum s) NFT_TRACETYPE_RULE
      in Next_rule (do_chain env (s1\<lparr>cur_chain := verdict_chain (verdict (regs s1))\<rparr>)))"

text \<open>The two \<^verbatim>\<open>switch\<close> statements after the loop over the rules.\<close>

definition nft_do_chain_verdict :: "nft_env \<Rightarrow> nft_pktinfo \<Rightarrow> nat \<Rightarrow> nft_state \<Rightarrow> nft_flow" where
  "nft_do_chain_verdict env pkt basechain s =
     (let c = verdict_code (verdict (regs s)) in
      if c AND NF_VERDICT_MASK = NF_ACCEPT \<or> c AND NF_VERDICT_MASK = NF_DROP
         \<or> c AND NF_VERDICT_MASK = NF_QUEUE then
        Return_verdict c
          (nft_trace_packet env pkt s (cur_chain s) (rulenum s) NFT_TRACETYPE_RULE)
      else if c = NFT_JUMP then
        (if stackptr s \<ge> NFT_JUMP_STACK_SIZE then Oops BUG_ON_jumpstack
         else nft_do_chain_goto env pkt
                (s\<lparr>jumpstack := (jumpstack s)(stackptr s :=
                       \<lparr>js_chain = cur_chain s, js_rule = cur_rule s, js_rulenum = rulenum s\<rparr>),
                    stackptr := stackptr s + 1\<rparr>))
      else if c = NFT_GOTO then nft_do_chain_goto env pkt s
      else if c = NFT_CONTINUE then
        (let s1 = s\<lparr>rulenum := rulenum s + 1\<rparr> in
         nft_do_chain_pop env pkt basechain
           (nft_trace_packet env pkt s1 (cur_chain s1) (rulenum s1) NFT_TRACETYPE_RETURN))
      else if c = NFT_RETURN then
        nft_do_chain_pop env pkt basechain
          (nft_trace_packet env pkt s (cur_chain s) (rulenum s) NFT_TRACETYPE_RETURN)
      else nft_do_chain_pop env pkt basechain (s\<lparr>warnings := warnings s + 1\<rparr>))"

text \<open>
  The rule the cursor moves to is evaluated: \<^verbatim>\<open>rulenum++\<close> and the loop over its
  expressions. \<open>rs\<close> are the rules after it.
\<close>

definition nft_do_chain_rule ::
  "nft_env \<Rightarrow> nft_pktinfo \<Rightarrow> nft_rule \<Rightarrow> nft_rule list \<Rightarrow> nft_state \<Rightarrow> nft_state" where
  "nft_do_chain_rule env pkt r rs s =
     s\<lparr>cur_rule := rs, rulenum := rulenum s + 1,
       regs := nft_rule_for_each_expr env (exprs r) (regs s) pkt,
       evaluated := evaluated s @ [r]\<rparr>"

text \<open>
  One pass of \<^verbatim>\<open>list_for_each_entry_continue_rcu\<close>: the list is exhausted and control falls
  to the switches, or the next rule is skipped (its \<^verbatim>\<open>genmask\<close> has the bit of the cursor)
  or evaluated.
\<close>

definition nft_do_chain_step ::
  "nft_env \<Rightarrow> nat \<Rightarrow> nft_pktinfo \<Rightarrow> nat \<Rightarrow> nft_state \<Rightarrow> nft_flow" where
  "nft_do_chain_step env gencursor pkt basechain s =
     (case cur_rule s of
        [] \<Rightarrow> nft_do_chain_verdict env pkt basechain s
      | r # rs \<Rightarrow>
          if genmask r AND push_bit gencursor 1 \<noteq> 0 then Next_rule (s\<lparr>cur_rule := rs\<rparr>)
          else
            let s1 = nft_do_chain_rule env pkt r rs s;
                c = verdict_code (verdict (regs s1))
            in if c = NFT_BREAK then Next_rule (next_rule s1)
               else if c = NFT_CONTINUE then
                 Next_rule (nft_trace_packet env pkt s1 (cur_chain s1) (rulenum s1)
                              NFT_TRACETYPE_RULE)
               else nft_do_chain_verdict env pkt basechain s1)"

text \<open>
  The loop may run forever (a chain that goes to itself), so it runs on fuel: one unit for
  each pass, \<open>None\<close> when the fuel is spent before the function returns.
\<close>

fun nft_do_chain_loop ::
  "nat \<Rightarrow> nft_env \<Rightarrow> nat \<Rightarrow> nft_pktinfo \<Rightarrow> nat \<Rightarrow> nft_state \<Rightarrow> (nft_oops + u32 \<times> nft_state) option" where
  "nft_do_chain_loop 0 env gencursor pkt basechain s = None"
| "nft_do_chain_loop (Suc n) env gencursor pkt basechain s =
     (case nft_do_chain_step env gencursor pkt basechain s of
        Next_rule s' \<Rightarrow> nft_do_chain_loop n env gencursor pkt basechain s'
      | Return_verdict v s' \<Rightarrow> Some (Inr (v, s'))
      | Oops e \<Rightarrow> Some (Inl e))"

text \<open>\<^verbatim>\<open>dev_net(pkt->in ? pkt->in : pkt->out)\<close>; \<open>None\<close> when both pointers are null.\<close>

definition nft_pkt_net :: "nft_pktinfo \<Rightarrow> nat option" where
  "nft_pkt_net pkt = (case pkt_in pkt of Some d \<Rightarrow> Some d | None \<Rightarrow> pkt_out pkt)"

text \<open>
  \<^verbatim>\<open>nft_do_chain(pkt, ops)\<close>, with \<open>basechain\<close> for \<^verbatim>\<open>ops->priv\<close> and \<open>s0\<close> for the memory
  the call starts on (its locals uninitialised).
\<close>

definition nft_do_chain ::
  "nat \<Rightarrow> nft_env \<Rightarrow> nft_pktinfo \<Rightarrow> nat \<Rightarrow> nft_state \<Rightarrow> (nft_oops + u32 \<times> nft_state) option" where
  "nft_do_chain fuel env pkt basechain s0 =
     (let s1 = s0\<lparr>cur_chain := basechain, stackptr := 0\<rparr> in
      case nft_pkt_net pkt of
        None \<Rightarrow> Some (Inl NULL_device)
      | Some net \<Rightarrow>
          let gencursor = nft_genmask_cur env net in
          if net \<noteq> pnet (chain_at env basechain) then Some (Inr (NF_ACCEPT, s1))
          else
            let s2 = s1\<lparr>info_trace := False\<rparr>;
                s3 = (if nft_trace_enabled env then s2\<lparr>info_trace := nft_trace_init env\<rparr>
                      else s2)
            in nft_do_chain_loop fuel env gencursor pkt basechain (do_chain env s3))"

subsection \<open>Vocabulary of the properties\<close>

text \<open>The three conditions under which \<^verbatim>\<open>nft_trace_packet\<close> emits an event: the static key,
  \<^verbatim>\<open>info->trace\<close> and \<^verbatim>\<open>skb->nf_trace\<close>.\<close>

definition nft_tracing :: "nft_env \<Rightarrow> nft_pktinfo \<Rightarrow> nft_state \<Rightarrow> bool" where
  "nft_tracing env pkt s \<longleftrightarrow> nft_trace_enabled env \<and> info_trace s \<and> nf_trace (skb pkt)"

text \<open>A rule the loop does not skip under generation cursor \<open>g\<close>: the test
  \<^verbatim>\<open>rule->genmask & (1 << gencursor)\<close> gives zero.\<close>

definition nft_rule_active :: "nat \<Rightarrow> nft_rule \<Rightarrow> bool" where
  "nft_rule_active g r \<longleftrightarrow> genmask r AND push_bit g 1 = 0"

text \<open>The cases of the first \<^verbatim>\<open>switch\<close>: the low byte of the code is \<^verbatim>\<open>NF_ACCEPT\<close>,
  \<^verbatim>\<open>NF_DROP\<close> or \<^verbatim>\<open>NF_QUEUE\<close>.\<close>

definition nft_disposition :: "u32 \<Rightarrow> bool" where
  "nft_disposition c \<longleftrightarrow> c AND NF_VERDICT_MASK = NF_ACCEPT \<or> c AND NF_VERDICT_MASK = NF_DROP \<or> c AND NF_VERDICT_MASK = NF_QUEUE"

text \<open>\<^verbatim>\<open>stats->pkts++; stats->bytes += pkt->skb->len\<close> on 64-bit counters.\<close>

definition nft_stats_add :: "nft_pktinfo \<Rightarrow> nft_stats \<Rightarrow> nft_stats" where
  "nft_stats_add pkt st = st\<lparr>pkts := pkts st + 1, bytes := bytes st + ucast (skb_len (skb pkt))\<rparr>"

text \<open>The value a call returned and the state it left, when it returned.\<close>

definition nft_returned :: "(nft_oops + u32 \<times> nft_state) option \<Rightarrow> u32 option" where
  "nft_returned res = (case res of Some (Inr (v, s)) \<Rightarrow> Some v | _ \<Rightarrow> None)"

definition nft_final :: "(nft_oops + u32 \<times> nft_state) option \<Rightarrow> nft_state option" where
  "nft_final res = (case res of Some (Inr (v, s)) \<Rightarrow> Some s | _ \<Rightarrow> None)"

text \<open>No rule of \<open>rs\<close> matches the packet: each active rule, run on any register file whose
  verdict is \<open>Continue\<close>, ends in \<open>Break\<close>.\<close>

definition nft_no_match :: "nft_env \<Rightarrow> nat \<Rightarrow> nft_pktinfo \<Rightarrow> nft_rule list \<Rightarrow> bool" where
  "nft_no_match env g pkt rs \<longleftrightarrow>
     (\<forall>r \<in> set rs. \<forall>x. nft_rule_active g r \<longrightarrow> verdict_code (verdict x) = NFT_CONTINUE \<longrightarrow>
        verdict_code (verdict (nft_rule_for_each_expr env (exprs r) x pkt)) = NFT_BREAK)"

text \<open>The state in which \<^verbatim>\<open>nft_do_chain\<close> enters its loop.\<close>

definition nft_start :: "nft_env \<Rightarrow> nat \<Rightarrow> nft_state \<Rightarrow> nft_state" where
  "nft_start env b s0 =
     do_chain env (s0\<lparr>cur_chain := b, stackptr := 0,
                       info_trace := (nft_trace_enabled env \<and> nft_trace_init env)\<rparr>)"

text \<open>
  What holds of every state at the head of a pass: the verdict code is \<open>Continue\<close>, the
  cursor is in the current chain's rule list, and so is the cursor of every live frame.
\<close>

definition nft_state_wf :: "nft_env \<Rightarrow> nft_state \<Rightarrow> bool" where
  "nft_state_wf env s \<longleftrightarrow>
     verdict_code (verdict (regs s)) = NFT_CONTINUE \<and>
     set (cur_rule s) \<subseteq> set (rules (chain_at env (cur_chain s))) \<and>
     (\<forall>i < stackptr s. set (js_rule (jumpstack s i))
                         \<subseteq> set (rules (chain_at env (js_chain (jumpstack s i)))))"

text \<open>
  The guarantee the code expects from the building of the rule set, with \<open>dp c\<close> the number of
  nested jumps that can start in chain \<open>c\<close>: a jump leads to a chain of smaller depth, a goto
  to one of no greater depth, whatever the registers hold when the rule is run.
\<close>

definition nft_jump_depth :: "nft_env \<Rightarrow> nft_pktinfo \<Rightarrow> (nat \<Rightarrow> nat) \<Rightarrow> bool" where
  "nft_jump_depth env pkt dp \<longleftrightarrow>
     (\<forall>c. \<forall>r \<in> set (rules (chain_at env c)). \<forall>x. verdict_code (verdict x) = NFT_CONTINUE \<longrightarrow>
        (verdict_code (verdict (nft_rule_for_each_expr env (exprs r) x pkt)) = NFT_JUMP \<longrightarrow>
           dp (verdict_chain (verdict (nft_rule_for_each_expr env (exprs r) x pkt))) < dp c) \<and>
        (verdict_code (verdict (nft_rule_for_each_expr env (exprs r) x pkt)) = NFT_GOTO \<longrightarrow>
           dp (verdict_chain (verdict (nft_rule_for_each_expr env (exprs r) x pkt))) \<le> dp c))"

text \<open>The frames pushed so far and the jumps that can still nest fit in \<open>d\<close>.\<close>

definition nft_depth_inv :: "(nat \<Rightarrow> nat) \<Rightarrow> nat \<Rightarrow> nft_state \<Rightarrow> bool" where
  "nft_depth_inv dp d s \<longleftrightarrow>
     stackptr s + dp (cur_chain s) \<le> d \<and>
     (\<forall>i < stackptr s. i + dp (js_chain (jumpstack s i)) \<le> d)"

text \<open>
  A rule set without cycles: every jump and every goto leads to a chain of smaller rank,
  whatever the registers hold when the rule is run.
\<close>

definition nft_chain_rank :: "nft_env \<Rightarrow> nft_pktinfo \<Rightarrow> (nat \<Rightarrow> nat) \<Rightarrow> bool" where
  "nft_chain_rank env pkt rk \<longleftrightarrow>
     (\<forall>c. \<forall>r \<in> set (rules (chain_at env c)). \<forall>x. verdict_code (verdict x) = NFT_CONTINUE \<longrightarrow>
        verdict_code (verdict (nft_rule_for_each_expr env (exprs r) x pkt)) = NFT_JUMP \<or>
        verdict_code (verdict (nft_rule_for_each_expr env (exprs r) x pkt)) = NFT_GOTO \<longrightarrow>
        rk (verdict_chain (verdict (nft_rule_for_each_expr env (exprs r) x pkt))) < rk c)"

text \<open>
  The measure of the termination proof: a cursor with \<open>n\<close> rules left in a chain of rank
  \<open>k\<close> weighs \<open>(n + 1) * (N + 2) ^ k\<close>, where no chain has more than \<open>N\<close> rules; a state
  weighs its cursor and its live frames. \<open>nft_pass_bound\<close> is one more than the greatest
  weight of a start state.
\<close>

definition nft_weight :: "nat \<Rightarrow> (nat \<Rightarrow> nat) \<Rightarrow> nat \<Rightarrow> nft_rule list \<Rightarrow> nat" where
  "nft_weight N rk c rs = (length rs + 1) * (N + 2) ^ rk c"

definition nft_measure :: "nat \<Rightarrow> (nat \<Rightarrow> nat) \<Rightarrow> nft_state \<Rightarrow> nat" where
  "nft_measure N rk s =
     nft_weight N rk (cur_chain s) (cur_rule s) +
     sum (\<lambda>i. nft_weight N rk (js_chain (jumpstack s i)) (js_rule (jumpstack s i)))
       {..<stackptr s}"

definition nft_pass_bound :: "nat \<Rightarrow> nat \<Rightarrow> nat" where
  "nft_pass_bound N k = (N + 1) * (N + 2) ^ k + 1"

text \<open>The number of rules active under cursor \<open>g\<close> in the chains at the addresses \<open>cs\<close>.\<close>

definition nft_total_visible_rules :: "nft_env \<Rightarrow> nat \<Rightarrow> nat list \<Rightarrow> nat" where
  "nft_total_visible_rules env g cs =
     sum_list (map (\<lambda>c. length (filter (nft_rule_active g) (rules (chain_at env c)))) cs)"

text \<open>
  \<open>nft_nested env g pkt b n s t\<close>: the loop gets from state \<open>s\<close> to state \<open>t\<close> by passes
  that each start with more than \<open>n\<close> frames on the jump stack, that is, inside the chains
  called from the frame at index \<open>n\<close>.
\<close>

inductive nft_nested ::
  "nft_env \<Rightarrow> nat \<Rightarrow> nft_pktinfo \<Rightarrow> nat \<Rightarrow> nat \<Rightarrow> nft_state \<Rightarrow> nft_state \<Rightarrow> bool"
  for env g pkt b n s where
  nested_here: "nft_nested env g pkt b n s s"
| nested_pass: "nft_nested env g pkt b n s t \<Longrightarrow> n < stackptr t \<Longrightarrow>
                nft_do_chain_step env g pkt b t = Next_rule t' \<Longrightarrow> nft_nested env g pkt b n s t'"

text \<open>The state one pass leaves.\<close>

definition nft_after :: "nft_env \<Rightarrow> nat \<Rightarrow> nft_pktinfo \<Rightarrow> nat \<Rightarrow> nft_state \<Rightarrow> nft_state" where
  "nft_after env g pkt b s =
     (case nft_do_chain_step env g pkt b s of
        Next_rule s' \<Rightarrow> s' | Return_verdict v s' \<Rightarrow> s' | Oops e \<Rightarrow> s)"

subsection \<open>Concrete rule sets and packets\<close>

text \<open>
  Inputs on which the theorems are evaluated: an expression that stores a verdict (as an
  immediate expression of the catalogue does when its destination is the verdict register:
  it copies the four words of a verdict), rules of one expression, a memory with empty
  chains everywhere, a packet of 60 bytes in namespace 0 with tracing requested, a register
  file with verdict \<open>Continue\<close> and the same value in every data register that is not part of
  the verdict, and a start state.
\<close>

definition ex_verdict :: "u32 \<Rightarrow> nat \<Rightarrow> nft_expr" where
  "ex_verdict c t =
     Generic (\<lambda>r pkt. r\<lparr>data := (data r)(0 := c, 1 := 0, 2 := word_of_nat t, 3 := 0)\<rparr>)"

definition ex_rule :: "nft_expr \<Rightarrow> nft_rule" where
  "ex_rule e = \<lparr>genmask = 0, exprs = [e]\<rparr>"

definition ex_chain :: "nft_rule list \<Rightarrow> u32 \<Rightarrow> nft_chain" where
  "ex_chain rs p = \<lparr>rules = rs, policy = p, pnet = 0\<rparr>"

definition ex_env :: "bool \<Rightarrow> (nat \<Rightarrow> nft_chain) \<Rightarrow> nft_env" where
  "ex_env tr m =
     \<lparr>chain_at = m, nft_genmask_cur = (\<lambda>net. 0), nft_trace_enabled = tr,
      nft_trace_init = True, nft_cmp_fast_mask = (\<lambda>len. 0xff),
      u32_of_bytes = (\<lambda>bs. case bs of [] \<Rightarrow> 0 | b # bs' \<Rightarrow> ucast b)\<rparr>"

definition ex_no_chains :: "nat \<Rightarrow> nft_chain" where
  "ex_no_chains = (\<lambda>c. ex_chain [] NF_ACCEPT)"

definition ex_pkt :: nft_pktinfo where
  "ex_pkt =
     \<lparr>skb = \<lparr>skb_mem = (\<lambda>a. 6), skb_network_header = 14, skb_tail_pointer = 74,
             skb_len = 60, nf_trace = True\<rparr>,
      thoff = 20, pkt_in = Some 0, pkt_out = None\<rparr>"

text \<open>The same packet, not marked for tracing.\<close>

definition ex_untraced_pkt :: nft_pktinfo where
  "ex_untraced_pkt = ex_pkt\<lparr>skb := (skb ex_pkt)\<lparr>nf_trace := False\<rparr>\<rparr>"

definition ex_regs :: "u32 \<Rightarrow> nft_regs" where
  "ex_regs v = \<lparr>data = (\<lambda>i. v)(0 := NFT_CONTINUE, 1 := 0, 2 := 0, 3 := 0)\<rparr>"

definition ex_state :: nft_state where
  "ex_state =
     \<lparr>cur_chain = 0, cur_rule = [], rulenum = 0, regs = ex_regs 0, stackptr = 0,
      jumpstack = (\<lambda>i. \<lparr>js_chain = 0, js_rule = [], js_rulenum = 0\<rparr>),
      info_trace = False, stats = \<lparr>pkts = 0, bytes = 0\<rparr>, trace_log = [],
      warnings = 0, evaluated = []\<rparr>"

text \<open>A compare of the low byte of \<^verbatim>\<open>data[4]\<close>, the first register that is not part of the
  verdict, and a load from the network header into that register.\<close>

definition ex_cmp :: nft_cmp_fast_expr where
  "ex_cmp = \<lparr>cmp_data = 0x06, cmp_sreg = 4, cmp_len = 8\<rparr>"

definition ex_payload :: "nat \<Rightarrow> nat \<Rightarrow> nft_payload" where
  "ex_payload off n =
     \<lparr>pl_base = NFT_PAYLOAD_NETWORK_HEADER, pl_offset = off, pl_len = n, pl_dreg = 4\<rparr>"

definition ex_drop_env :: "bool \<Rightarrow> nft_env" where
  "ex_drop_env tr = ex_env tr (ex_no_chains(0 := ex_chain [ex_rule (ex_verdict NF_DROP 0)] NF_ACCEPT))"

definition ex_unknown_env :: nft_env where
  "ex_unknown_env = ex_env False (ex_no_chains(0 := ex_chain [ex_rule (ex_verdict 7 0)] NF_ACCEPT))"

definition ex_empty_env :: "bool \<Rightarrow> nft_env" where
  "ex_empty_env tr = ex_env tr (ex_no_chains(0 := ex_chain [] NF_DROP))"

text \<open>An expression that stores a value in \<^verbatim>\<open>data[4]\<close> and leaves the verdict alone.\<close>

definition ex_load :: "u32 \<Rightarrow> nft_expr" where
  "ex_load v = Generic (\<lambda>r pkt. r\<lparr>data := (data r)(4 := v)\<rparr>)"

definition ex_return_env :: "bool \<Rightarrow> nft_env" where
  "ex_return_env tr = ex_env tr (ex_no_chains(0 := ex_chain [ex_rule (ex_verdict NFT_RETURN 0)] NF_DROP))"

definition ex_nomatch_env :: "bool \<Rightarrow> nft_env" where
  "ex_nomatch_env tr =
     ex_env tr (ex_no_chains(0 := ex_chain
       [\<lparr>genmask = 0, exprs = [ex_load 0x11, Cmp_fast ex_cmp]\<rparr>,
        \<lparr>genmask = 1, exprs = [ex_verdict NF_ACCEPT 0]\<rparr>] NF_DROP))"

text \<open>A chain that jumps to a chain that goes to a third chain that returns, and the states of
  the first three passes on it.\<close>

definition ex_call_env :: nft_env where
  "ex_call_env =
     ex_env False (ex_no_chains
       (0 := ex_chain [ex_rule (ex_verdict NFT_JUMP 1), ex_rule (ex_verdict NF_DROP 0)] NF_ACCEPT,
        1 := ex_chain [ex_rule (ex_verdict NFT_GOTO 2)] NF_ACCEPT,
        2 := ex_chain [ex_rule (ex_verdict NFT_RETURN 0)] NF_ACCEPT))"

definition ex_call0 :: nft_state where
  "ex_call0 = nft_start ex_call_env 0 ex_state"

definition ex_call1 :: nft_state where
  "ex_call1 = nft_after ex_call_env 0 ex_pkt 0 ex_call0"

definition ex_call2 :: nft_state where
  "ex_call2 = nft_after ex_call_env 0 ex_pkt 0 ex_call1"

definition ex_call3 :: nft_state where
  "ex_call3 = nft_after ex_call_env 0 ex_pkt 0 ex_call2"

text \<open>Depths for the three chains above, and a chain that jumps to itself.\<close>

definition ex_call_depth :: "nat \<Rightarrow> nat" where
  "ex_call_depth c = (if c = 0 then 1 else 0)"

definition ex_self_jump_env :: nft_env where
  "ex_self_jump_env = ex_env False (ex_no_chains(0 := ex_chain [ex_rule (ex_verdict NFT_JUMP 0)] NF_ACCEPT))"

text \<open>
  Ranks for the three chains above, and a chain that jumps three times to a chain of nine
  rules that match and leave the verdict alone.
\<close>

definition ex_call_rank :: "nat \<Rightarrow> nat" where
  "ex_call_rank c = 2 - c"

definition ex_noop :: nft_rule where
  "ex_noop = ex_rule (ex_load 0)"

definition ex_repeat_env :: nft_env where
  "ex_repeat_env =
     ex_env False (ex_no_chains
       (0 := ex_chain [ex_rule (ex_verdict NFT_JUMP 1), ex_rule (ex_verdict NFT_JUMP 1),
                       ex_rule (ex_verdict NFT_JUMP 1)] NF_ACCEPT,
        1 := ex_chain [ex_noop, ex_noop, ex_noop, ex_noop, ex_noop, ex_noop, ex_noop, ex_noop,
                       ex_noop] NF_ACCEPT))"

section \<open>Properties\<close>

subsection \<open>Evaluation of concrete inputs\<close>

lemmas nft_code_defs =
  NF_DROP_def NF_ACCEPT_def NF_STOLEN_def NF_QUEUE_def NF_VERDICT_MASK_def
  NFT_CONTINUE_def NFT_BREAK_def NFT_JUMP_def NFT_GOTO_def NFT_RETURN_def

lemmas nft_step_defs =
  nft_do_chain_step_def nft_do_chain_rule_def nft_do_chain_verdict_def nft_do_chain_goto_def nft_do_chain_pop_def
  do_chain_def next_rule_def nft_trace_packet_def nft_trace_packet_noinline_def

lemmas ex_defs =
  ex_verdict_def ex_rule_def ex_chain_def ex_env_def ex_no_chains_def ex_pkt_def ex_regs_def
  ex_state_def verdict_def verdict_code_store_def

lemma nft_do_chain_loop_numeral:
  "nft_do_chain_loop (numeral k) env g pkt b s =
     (case nft_do_chain_step env g pkt b s of
        Next_rule s' \<Rightarrow> nft_do_chain_loop (pred_numeral k) env g pkt b s'
      | Return_verdict v s' \<Rightarrow> Some (Inr (v, s'))
      | Oops e \<Rightarrow> Some (Inl e))"
  by (simp add: numeral_eq_Suc)

lemmas nft_run_simps =
  nft_do_chain_def nft_pkt_net_def nft_do_chain_loop_numeral nft_step_defs Let_def
  nft_returned_def nft_final_def NFT_JUMP_STACK_SIZE_def nft_code_defs ex_defs

lemmas ex_call_defs = ex_call_env_def ex_call0_def ex_call1_def ex_call2_def ex_call3_def
  nft_after_def nft_start_def

lemmas nft_eval_simps = nft_step_defs Let_def NFT_JUMP_STACK_SIZE_def nft_code_defs ex_defs
  nft_rule_active_def

subsection \<open>The verdict register in the register file\<close>

lemma verdict_code_store_verdict [simp]:
  "verdict_code (verdict (verdict_code_store c r)) = c"
  "verdict_chain (verdict (verdict_code_store c r)) = verdict_chain (verdict r)"
  by (simp_all add: verdict_def verdict_code_store_def)

lemma verdict_code_store_data:
  "data (verdict_code_store c r) = (data r)(0 := c)"
  by (simp add: verdict_code_store_def)

lemma verdict_code_store_same:
  "verdict_code (verdict r) = c \<Longrightarrow> verdict_code_store c r = r"
  by (auto simp: verdict_def verdict_code_store_def)

subsection \<open>The loop body, case by case\<close>

lemma nft_trace_packet_eq:
  "nft_trace_packet env pkt s c n t =
     s\<lparr>trace_log := trace_log s @ (if nft_tracing env pkt s then [\<lparr>ev_chain = c, ev_rulenum = n, ev_type = t\<rparr>] else [])\<rparr>"
  by (simp add: nft_trace_packet_def nft_trace_packet_noinline_def nft_tracing_def)

lemma nft_disposition_codes [simp]:
  "\<not> nft_disposition NFT_CONTINUE" "\<not> nft_disposition NFT_BREAK" "\<not> nft_disposition NFT_JUMP"
  "\<not> nft_disposition NFT_GOTO" "\<not> nft_disposition NFT_RETURN"
  "nft_disposition NF_ACCEPT" "nft_disposition NF_DROP" "nft_disposition NF_QUEUE" "\<not> nft_disposition NF_STOLEN"
  by (simp_all add: nft_disposition_def nft_code_defs)

lemma nft_code_neq [simp]:
  "NFT_CONTINUE \<noteq> NFT_BREAK" "NFT_CONTINUE \<noteq> NFT_JUMP" "NFT_CONTINUE \<noteq> NFT_GOTO" "NFT_CONTINUE \<noteq> NFT_RETURN"
  "NFT_BREAK \<noteq> NFT_CONTINUE" "NFT_BREAK \<noteq> NFT_JUMP" "NFT_BREAK \<noteq> NFT_GOTO" "NFT_BREAK \<noteq> NFT_RETURN"
  "NFT_JUMP \<noteq> NFT_CONTINUE" "NFT_JUMP \<noteq> NFT_BREAK" "NFT_JUMP \<noteq> NFT_GOTO" "NFT_JUMP \<noteq> NFT_RETURN"
  "NFT_GOTO \<noteq> NFT_CONTINUE" "NFT_GOTO \<noteq> NFT_BREAK" "NFT_GOTO \<noteq> NFT_JUMP" "NFT_GOTO \<noteq> NFT_RETURN"
  "NFT_RETURN \<noteq> NFT_CONTINUE" "NFT_RETURN \<noteq> NFT_BREAK" "NFT_RETURN \<noteq> NFT_JUMP" "NFT_RETURN \<noteq> NFT_GOTO"
  by (simp_all add: nft_code_defs)


lemma nft_not_disposition [simp]:
  "nft_disposition c \<Longrightarrow> c \<noteq> NFT_CONTINUE"
  "nft_disposition c \<Longrightarrow> c \<noteq> NFT_BREAK"
  "nft_disposition c \<Longrightarrow> c \<noteq> NFT_JUMP"
  "nft_disposition c \<Longrightarrow> c \<noteq> NFT_GOTO"
  "nft_disposition c \<Longrightarrow> c \<noteq> NFT_RETURN"
  by auto

lemma nft_do_chain_verdict_eq:
  "nft_do_chain_verdict env pkt basechain s =
     (let c = verdict_code (verdict (regs s)) in
      if nft_disposition c then
        Return_verdict c
          (nft_trace_packet env pkt s (cur_chain s) (rulenum s) NFT_TRACETYPE_RULE)
      else if c = NFT_JUMP then
        (if stackptr s \<ge> NFT_JUMP_STACK_SIZE then Oops BUG_ON_jumpstack
         else nft_do_chain_goto env pkt
                (s\<lparr>jumpstack := (jumpstack s)(stackptr s :=
                       \<lparr>js_chain = cur_chain s, js_rule = cur_rule s, js_rulenum = rulenum s\<rparr>),
                    stackptr := stackptr s + 1\<rparr>))
      else if c = NFT_GOTO then nft_do_chain_goto env pkt s
      else if c = NFT_CONTINUE then
        nft_do_chain_pop env pkt basechain
           (nft_trace_packet env pkt (s\<lparr>rulenum := rulenum s + 1\<rparr>) (cur_chain s) (rulenum s + 1) NFT_TRACETYPE_RETURN)
      else if c = NFT_RETURN then
        nft_do_chain_pop env pkt basechain
          (nft_trace_packet env pkt s (cur_chain s) (rulenum s) NFT_TRACETYPE_RETURN)
      else nft_do_chain_pop env pkt basechain (s\<lparr>warnings := warnings s + 1\<rparr>))"
  by (simp add: nft_do_chain_verdict_def nft_disposition_def Let_def)

lemma nft_do_chain_rule_fields [simp]:
  "cur_chain (nft_do_chain_rule env pkt r rs s) = cur_chain s"
  "cur_rule (nft_do_chain_rule env pkt r rs s) = rs"
  "rulenum (nft_do_chain_rule env pkt r rs s) = rulenum s + 1"
  "regs (nft_do_chain_rule env pkt r rs s) = nft_rule_for_each_expr env (exprs r) (regs s) pkt"
  "stackptr (nft_do_chain_rule env pkt r rs s) = stackptr s"
  "jumpstack (nft_do_chain_rule env pkt r rs s) = jumpstack s"
  "info_trace (nft_do_chain_rule env pkt r rs s) = info_trace s"
  "stats (nft_do_chain_rule env pkt r rs s) = stats s"
  "trace_log (nft_do_chain_rule env pkt r rs s) = trace_log s"
  "warnings (nft_do_chain_rule env pkt r rs s) = warnings s"
  "evaluated (nft_do_chain_rule env pkt r rs s) = evaluated s @ [r]"
  by (simp_all add: nft_do_chain_rule_def)

lemma nft_do_chain_step_Nil:
  "cur_rule s = [] \<Longrightarrow> nft_do_chain_step env g pkt b s = nft_do_chain_verdict env pkt b s"
  by (simp add: nft_do_chain_step_def)

lemma nft_do_chain_step_skip:
  "cur_rule s = r # rs \<Longrightarrow> \<not> nft_rule_active g r \<Longrightarrow>
   nft_do_chain_step env g pkt b s = Next_rule (s\<lparr>cur_rule := rs\<rparr>)"
  by (simp add: nft_do_chain_step_def nft_rule_active_def)

lemma nft_do_chain_step_rule:
  "cur_rule s = r # rs \<Longrightarrow> nft_rule_active g r \<Longrightarrow>
   nft_do_chain_step env g pkt b s =
     (let s1 = nft_do_chain_rule env pkt r rs s; c = verdict_code (verdict (regs s1)) in
      if c = NFT_BREAK then Next_rule (next_rule s1)
      else if c = NFT_CONTINUE then
        Next_rule (nft_trace_packet env pkt s1 (cur_chain s1) (rulenum s1) NFT_TRACETYPE_RULE)
      else nft_do_chain_verdict env pkt b s1)"
  by (simp add: nft_do_chain_step_def nft_rule_active_def)

lemma nft_do_chain_loop_invariant:
  assumes "nft_do_chain_loop fuel env g pkt b s = Some (Inr (v, s'))" and "I s"
    and "\<And>t t'. I t \<Longrightarrow> nft_do_chain_step env g pkt b t = Next_rule t' \<Longrightarrow> I t'"
    and "\<And>t w t'. I t \<Longrightarrow> nft_do_chain_step env g pkt b t = Return_verdict w t' \<Longrightarrow> Q w t'"
  shows "Q v s'"
  using assms(1,2)
proof (induction fuel arbitrary: s)
  case 0
  then show ?case by simp
next
  case (Suc n)
  show ?case
  proof (cases "nft_do_chain_step env g pkt b s")
    case (Next_rule t)
    with Suc.prems assms(3) have "nft_do_chain_loop n env g pkt b t = Some (Inr (v, s'))" "I t"
      by auto
    then show ?thesis by (rule Suc.IH)
  next
    case (Return_verdict w t)
    with Suc.prems have "w = v" "t = s'" by auto
    with Return_verdict Suc.prems(2) assms(4) show ?thesis by blast
  next
    case (Oops e)
    with Suc.prems show ?thesis by simp
  qed
qed

lemmas nft_step_unfold =
  nft_do_chain_step_def nft_do_chain_rule_def nft_do_chain_verdict_eq nft_do_chain_goto_def nft_do_chain_pop_def
  do_chain_def next_rule_def nft_trace_packet_eq Let_def

lemma nft_do_chain_step_stats_next:
  "nft_do_chain_step env g pkt b t = Next_rule t' \<Longrightarrow> stats t' = stats t"
  by (auto simp: nft_step_unfold split: list.splits if_splits)

lemma nft_do_chain_step_stats_return:
  "nft_do_chain_step env g pkt b t = Return_verdict w t' \<Longrightarrow>
    (if nft_disposition (verdict_code (verdict (regs t'))) then w = verdict_code (verdict (regs t')) \<and> stats t' = stats t
     else w = policy (chain_at env b) \<and> stats t' = nft_stats_add pkt (stats t) \<and> stackptr t' = 0)"
  by (auto simp: nft_step_unfold nft_stats_add_def split: list.splits if_splits)


lemma nft_do_chain_own_net:
  "nft_pkt_net pkt = Some (pnet (chain_at env b)) \<Longrightarrow>
   nft_do_chain fuel env pkt b s0 =
     nft_do_chain_loop fuel env (nft_genmask_cur env (pnet (chain_at env b))) pkt b (nft_start env b s0)"
  by (simp add: nft_do_chain_def nft_start_def Let_def)

lemma nft_start_fields [simp]:
  "cur_chain (nft_start env b s0) = b"
  "cur_rule (nft_start env b s0) = rules (chain_at env b)"
  "rulenum (nft_start env b s0) = 0"
  "verdict_code (verdict (regs (nft_start env b s0))) = NFT_CONTINUE"
  "stackptr (nft_start env b s0) = 0"
  "jumpstack (nft_start env b s0) = jumpstack s0"
  "info_trace (nft_start env b s0) = (nft_trace_enabled env \<and> nft_trace_init env)"
  "stats (nft_start env b s0) = stats s0"
  "trace_log (nft_start env b s0) = trace_log s0"
  "warnings (nft_start env b s0) = warnings s0"
  "evaluated (nft_start env b s0) = evaluated s0"
  by (simp_all add: nft_start_def do_chain_def next_rule_def)

lemma nft_start_code [simp]: "data (regs (nft_start env b s0)) 0 = NFT_CONTINUE"
  by (simp add: nft_start_def do_chain_def next_rule_def verdict_code_store_def)

lemma nft_do_chain_loop_no_match:
  assumes "nft_no_match env g pkt rs"
  shows "stackptr s = 0 \<Longrightarrow> verdict_code (verdict (regs s)) = NFT_CONTINUE \<Longrightarrow> cur_rule s = rs \<Longrightarrow>
    \<exists>s'. nft_do_chain_loop (Suc (length rs)) env g pkt b s = Some (Inr (policy (chain_at env b), s')) \<and>
          stats s' = nft_stats_add pkt (stats s) \<and>
          evaluated s' = evaluated s @ filter (nft_rule_active g) rs \<and>
          warnings s' = warnings s \<and>
          trace_log s' = trace_log s @
            (if nft_tracing env pkt s
             then [\<lparr>ev_chain = cur_chain s, ev_rulenum = rulenum s + int (length (filter (nft_rule_active g) rs)) + 1, ev_type = NFT_TRACETYPE_RETURN\<rparr>,
                   \<lparr>ev_chain = b, ev_rulenum = - 1, ev_type = NFT_TRACETYPE_POLICY\<rparr>]
             else [])"
  using assms
proof (induction rs arbitrary: s)
  case Nil
  then show ?case
    by (simp add: nft_do_chain_step_Nil nft_do_chain_verdict_eq nft_do_chain_pop_def Let_def
        nft_trace_packet_eq nft_stats_add_def nft_tracing_def)
next
  case (Cons r rs)
  from Cons.prems(4) have nm: "nft_no_match env g pkt rs"
    by (simp add: nft_no_match_def)
  show ?case
  proof (cases "nft_rule_active g r")
    case False
    let ?t = "s\<lparr>cur_rule := rs\<rparr>"
    from Cons.prems False have step: "nft_do_chain_step env g pkt b s = Next_rule ?t"
      by (simp add: nft_do_chain_step_skip)
    then have unroll: "nft_do_chain_loop (Suc (length (r # rs))) env g pkt b s
                     = nft_do_chain_loop (Suc (length rs)) env g pkt b ?t"
      by simp
    from Cons.IH [of ?t, OF _ _ _ nm] Cons.prems(1,2)
    obtain s' where "nft_do_chain_loop (Suc (length rs)) env g pkt b ?t
                       = Some (Inr (policy (chain_at env b), s'))"
      and "stats s' = nft_stats_add pkt (stats ?t)"
      and "evaluated s' = evaluated ?t @ filter (nft_rule_active g) rs"
      and "warnings s' = warnings ?t"
      and "trace_log s' = trace_log ?t @
            (if nft_tracing env pkt ?t
             then [\<lparr>ev_chain = cur_chain ?t,
                    ev_rulenum = rulenum ?t + int (length (filter (nft_rule_active g) rs)) + 1,
                    ev_type = NFT_TRACETYPE_RETURN\<rparr>,
                   \<lparr>ev_chain = b, ev_rulenum = - 1, ev_type = NFT_TRACETYPE_POLICY\<rparr>]
             else [])"
      by auto
    with unroll False show ?thesis
      by (intro exI [of _ s']) (simp add: nft_tracing_def)
  next
    case True
    let ?t = "next_rule (nft_do_chain_rule env pkt r rs s)"
    from Cons.prems(2,4) True
    have "verdict_code (verdict (regs (nft_do_chain_rule env pkt r rs s))) = NFT_BREAK"
      by (simp add: nft_no_match_def)
    with Cons.prems True have step: "nft_do_chain_step env g pkt b s = Next_rule ?t"
      by (simp add: nft_do_chain_step_rule Let_def)
    then have unroll: "nft_do_chain_loop (Suc (length (r # rs))) env g pkt b s
                     = nft_do_chain_loop (Suc (length rs)) env g pkt b ?t"
      by simp
    have t: "stackptr ?t = 0" "verdict_code (verdict (regs ?t)) = NFT_CONTINUE" "cur_rule ?t = rs"
      using Cons.prems(1) by (simp_all add: next_rule_def)
    from Cons.IH [of ?t, OF t nm]
    obtain s' where "nft_do_chain_loop (Suc (length rs)) env g pkt b ?t
                       = Some (Inr (policy (chain_at env b), s'))"
      and "stats s' = nft_stats_add pkt (stats ?t)"
      and "evaluated s' = evaluated ?t @ filter (nft_rule_active g) rs"
      and "warnings s' = warnings ?t"
      and "trace_log s' = trace_log ?t @
            (if nft_tracing env pkt ?t
             then [\<lparr>ev_chain = cur_chain ?t,
                    ev_rulenum = rulenum ?t + int (length (filter (nft_rule_active g) rs)) + 1,
                    ev_type = NFT_TRACETYPE_RETURN\<rparr>,
                   \<lparr>ev_chain = b, ev_rulenum = - 1, ev_type = NFT_TRACETYPE_POLICY\<rparr>]
             else [])"
      by auto
    with unroll True show ?thesis
      by (intro exI [of _ s']) (simp add: nft_tracing_def next_rule_def)
  qed
qed

subsection \<open>The passes that go on\<close>

lemma next_rule_fields [simp]:
  "cur_chain (next_rule s) = cur_chain s"
  "cur_rule (next_rule s) = cur_rule s"
  "rulenum (next_rule s) = rulenum s"
  "verdict_code (verdict (regs (next_rule s))) = NFT_CONTINUE"
  "stackptr (next_rule s) = stackptr s"
  "jumpstack (next_rule s) = jumpstack s"
  "info_trace (next_rule s) = info_trace s"
  "stats (next_rule s) = stats s"
  "trace_log (next_rule s) = trace_log s"
  "warnings (next_rule s) = warnings s"
  "evaluated (next_rule s) = evaluated s"
  by (simp_all add: next_rule_def)

lemma do_chain_fields [simp]:
  "cur_chain (do_chain env s) = cur_chain s"
  "cur_rule (do_chain env s) = rules (chain_at env (cur_chain s))"
  "rulenum (do_chain env s) = 0"
  "verdict_code (verdict (regs (do_chain env s))) = NFT_CONTINUE"
  "stackptr (do_chain env s) = stackptr s"
  "jumpstack (do_chain env s) = jumpstack s"
  "info_trace (do_chain env s) = info_trace s"
  "stats (do_chain env s) = stats s"
  "trace_log (do_chain env s) = trace_log s"
  "warnings (do_chain env s) = warnings s"
  "evaluated (do_chain env s) = evaluated s"
  by (simp_all add: do_chain_def next_rule_def)

lemma nft_trace_packet_fields [simp]:
  "cur_chain (nft_trace_packet env pkt s c n ty) = cur_chain s"
  "cur_rule (nft_trace_packet env pkt s c n ty) = cur_rule s"
  "rulenum (nft_trace_packet env pkt s c n ty) = rulenum s"
  "regs (nft_trace_packet env pkt s c n ty) = regs s"
  "stackptr (nft_trace_packet env pkt s c n ty) = stackptr s"
  "jumpstack (nft_trace_packet env pkt s c n ty) = jumpstack s"
  "info_trace (nft_trace_packet env pkt s c n ty) = info_trace s"
  "stats (nft_trace_packet env pkt s c n ty) = stats s"
  "warnings (nft_trace_packet env pkt s c n ty) = warnings s"
  "evaluated (nft_trace_packet env pkt s c n ty) = evaluated s"
  by (simp_all add: nft_trace_packet_eq)

text \<open>
  The ways in which a pass goes on to another pass: the rule is skipped, has not matched, or
  has run through; or the verdict in \<open>u\<close> (the state after the rule, or the state itself
  when the list is exhausted) is a jump, a goto, or one that pops a frame.
\<close>

lemma nft_do_chain_pop_Next:
  assumes "nft_do_chain_pop env pkt b u = Next_rule t'"
  shows "0 < stackptr u \<and>
         t' = next_rule (u\<lparr>stackptr := stackptr u - 1,
                            cur_chain := js_chain (jumpstack u (stackptr u - 1)),
                            cur_rule := js_rule (jumpstack u (stackptr u - 1)),
                            rulenum := js_rulenum (jumpstack u (stackptr u - 1))\<rparr>)"
  using assms by (simp add: nft_do_chain_pop_def Let_def split: if_splits)

lemma nft_do_chain_step_cases [consumes 1, case_names skip break continue jump goto pop]:
  assumes step: "nft_do_chain_step env g pkt b t = Next_rule t'"
    and skip: "\<And>r rs. cur_rule t = r # rs \<Longrightarrow> \<not> nft_rule_active g r \<Longrightarrow>
                 t' = t\<lparr>cur_rule := rs\<rparr> \<Longrightarrow> P"
    and break: "\<And>r rs. cur_rule t = r # rs \<Longrightarrow> nft_rule_active g r \<Longrightarrow>
                 t' = next_rule (nft_do_chain_rule env pkt r rs t) \<Longrightarrow> P"
    and continue: "\<And>r rs. cur_rule t = r # rs \<Longrightarrow> nft_rule_active g r \<Longrightarrow>
                 verdict_code (verdict (regs (nft_do_chain_rule env pkt r rs t))) = NFT_CONTINUE \<Longrightarrow>
                 t' = nft_trace_packet env pkt (nft_do_chain_rule env pkt r rs t) (cur_chain t)
                        (rulenum t + 1) NFT_TRACETYPE_RULE \<Longrightarrow> P"
    and jump: "\<And>u. (u = t \<and> cur_rule t = [] \<or>
                    (\<exists>r rs. cur_rule t = r # rs \<and> nft_rule_active g r \<and>
                            u = nft_do_chain_rule env pkt r rs t)) \<Longrightarrow>
                 verdict_code (verdict (regs u)) = NFT_JUMP \<Longrightarrow>
                 stackptr t < NFT_JUMP_STACK_SIZE \<Longrightarrow>
                 t' = do_chain env
                       ((nft_trace_packet env pkt
                          (u\<lparr>jumpstack := (jumpstack t)(stackptr t :=
                                 \<lparr>js_chain = cur_chain t, js_rule = cur_rule u, js_rulenum = rulenum u\<rparr>),
                              stackptr := stackptr t + 1\<rparr>)
                          (cur_chain t) (rulenum u) NFT_TRACETYPE_RULE)
                        \<lparr>cur_chain := verdict_chain (verdict (regs u))\<rparr>) \<Longrightarrow> P"
    and goto: "\<And>u. (u = t \<and> cur_rule t = [] \<or>
                    (\<exists>r rs. cur_rule t = r # rs \<and> nft_rule_active g r \<and>
                            u = nft_do_chain_rule env pkt r rs t)) \<Longrightarrow>
                 verdict_code (verdict (regs u)) = NFT_GOTO \<Longrightarrow>
                 t' = do_chain env
                       ((nft_trace_packet env pkt u (cur_chain t) (rulenum u) NFT_TRACETYPE_RULE)
                        \<lparr>cur_chain := verdict_chain (verdict (regs u))\<rparr>) \<Longrightarrow> P"
    and pop: "\<And>u. stackptr u = stackptr t \<Longrightarrow> jumpstack u = jumpstack t \<Longrightarrow> 0 < stackptr t \<Longrightarrow>
                 t' = next_rule (u\<lparr>stackptr := stackptr t - 1,
                            cur_chain := js_chain (jumpstack t (stackptr t - 1)),
                            cur_rule := js_rule (jumpstack t (stackptr t - 1)),
                            rulenum := js_rulenum (jumpstack t (stackptr t - 1))\<rparr>) \<Longrightarrow> P"
  shows P
proof -
  have verdict: P
    if v: "nft_do_chain_verdict env pkt b u = Next_rule t'"
      and u: "u = t \<and> cur_rule t = [] \<or>
              (\<exists>r rs. cur_rule t = r # rs \<and> nft_rule_active g r \<and> u = nft_do_chain_rule env pkt r rs t)"
    for u
  proof -
    from u have same: "stackptr u = stackptr t" "jumpstack u = jumpstack t" "cur_chain u = cur_chain t"
      by auto
    let ?c = "verdict_code (verdict (regs u))"
    from v have nd: "\<not> nft_disposition ?c"
      by (auto simp: nft_do_chain_verdict_eq Let_def)
    consider (j) "?c = NFT_JUMP" | (g) "?c = NFT_GOTO" | (c) "?c = NFT_CONTINUE"
      | (r) "?c = NFT_RETURN"
      | (w) "?c \<noteq> NFT_JUMP" "?c \<noteq> NFT_GOTO" "?c \<noteq> NFT_CONTINUE" "?c \<noteq> NFT_RETURN"
      by blast
    then show P
    proof cases
      case j
      with v nd same have "stackptr t < NFT_JUMP_STACK_SIZE"
        by (auto simp: nft_do_chain_verdict_eq Let_def split: if_splits)
      moreover from v nd j same this
      have "t' = do_chain env
                       ((nft_trace_packet env pkt
                          (u\<lparr>jumpstack := (jumpstack t)(stackptr t :=
                                 \<lparr>js_chain = cur_chain t, js_rule = cur_rule u, js_rulenum = rulenum u\<rparr>),
                              stackptr := stackptr t + 1\<rparr>)
                          (cur_chain t) (rulenum u) NFT_TRACETYPE_RULE)
                        \<lparr>cur_chain := verdict_chain (verdict (regs u))\<rparr>)"
        by (simp add: nft_do_chain_verdict_eq nft_do_chain_goto_def Let_def)
      ultimately show P using u j by (intro jump [of u])
    next
      case g
      with v nd same
      have "t' = do_chain env
                       ((nft_trace_packet env pkt u (cur_chain t) (rulenum u) NFT_TRACETYPE_RULE)
                        \<lparr>cur_chain := verdict_chain (verdict (regs u))\<rparr>)"
        by (simp add: nft_do_chain_verdict_eq nft_do_chain_goto_def Let_def)
      with u g show P by (intro goto [of u])
    next
      case c
      let ?u = "nft_trace_packet env pkt (u\<lparr>rulenum := rulenum u + 1\<rparr>) (cur_chain u)
                  (rulenum u + 1) NFT_TRACETYPE_RETURN"
      from v nd c have "nft_do_chain_pop env pkt b ?u = Next_rule t'"
        by (simp add: nft_do_chain_verdict_eq Let_def)
      from nft_do_chain_pop_Next [OF this] same show P
        by (intro pop [of ?u]) simp_all
    next
      case r
      let ?u = "nft_trace_packet env pkt u (cur_chain u) (rulenum u) NFT_TRACETYPE_RETURN"
      from v nd r have "nft_do_chain_pop env pkt b ?u = Next_rule t'"
        by (simp add: nft_do_chain_verdict_eq Let_def)
      from nft_do_chain_pop_Next [OF this] same show P
        by (intro pop [of ?u]) simp_all
    next
      case w
      let ?u = "u\<lparr>warnings := warnings u + 1\<rparr>"
      from v nd w have "nft_do_chain_pop env pkt b ?u = Next_rule t'"
        by (simp add: nft_do_chain_verdict_eq Let_def)
      from nft_do_chain_pop_Next [OF this] same show P
        by (intro pop [of ?u]) simp_all
    qed
  qed
  show P
  proof (cases "cur_rule t")
    case Nil
    with step show P
      by (intro verdict [of t]) (simp_all add: nft_do_chain_step_Nil)
  next
    case (Cons r rs)
    show P
    proof (cases "nft_rule_active g r")
      case False
      with Cons step show P
        by (intro skip [of r rs]) (simp_all add: nft_do_chain_step_skip)
    next
      case True
      let ?u = "nft_do_chain_rule env pkt r rs t"
      let ?c = "verdict_code (verdict (regs ?u))"
      consider (b) "?c = NFT_BREAK" | (c) "?c = NFT_CONTINUE"
        | (v) "?c \<noteq> NFT_BREAK" "?c \<noteq> NFT_CONTINUE"
        by blast
      then show P
      proof cases
        case b
        with Cons True step show P
          by (intro break [of r rs]) (simp_all add: nft_do_chain_step_rule Let_def)
      next
        case c
        with Cons True step show P
          by (intro continue [of r rs]) (simp_all add: nft_do_chain_step_rule Let_def)
      next
        case v
        with Cons True step have "nft_do_chain_verdict env pkt b ?u = Next_rule t'"
          by (simp add: nft_do_chain_step_rule Let_def)
        with Cons True show P
          by (intro verdict [of ?u]) simp_all
      qed
    qed
  qed
qed

lemma nft_nested_frame:
  assumes "nft_nested env g pkt b n s t" and "n < stackptr s"
  shows "(\<forall>i \<le> n. jumpstack t i = jumpstack s i) \<and> n \<le> stackptr t \<and>
         (stackptr t = n \<longrightarrow>
            cur_chain t = js_chain (jumpstack s n) \<and> cur_rule t = js_rule (jumpstack s n) \<and>
            rulenum t = js_rulenum (jumpstack s n) \<and>
            verdict_code (verdict (regs t)) = NFT_CONTINUE)"
  using assms
proof (induction rule: nft_nested.induct)
  case nested_here
  then show ?case by simp
next
  case (nested_pass t t')
  then have frames: "\<forall>i \<le> n. jumpstack t i = jumpstack s i" and above: "n < stackptr t"
    by simp_all
  from nested_pass.hyps(3) show ?case
  proof (cases rule: nft_do_chain_step_cases)
    case (skip r rs)
    with frames above show ?thesis by simp
  next
    case (break r rs)
    with frames above show ?thesis by simp
  next
    case (continue r rs)
    with frames above show ?thesis by simp
  next
    case (jump u)
    with frames above show ?thesis by auto
  next
    case (goto u)
    with frames above show ?thesis by auto
  next
    case (pop u)
    with frames above show ?thesis by auto
  qed
qed

lemma ex_call_steps:
  "nft_do_chain_step ex_call_env 0 ex_pkt 0 ex_call0 = Next_rule ex_call1"
  "nft_do_chain_step ex_call_env 0 ex_pkt 0 ex_call1 = Next_rule ex_call2"
  "nft_do_chain_step ex_call_env 0 ex_pkt 0 ex_call2 = Next_rule ex_call3"
  by (simp_all add: ex_call_defs nft_eval_simps)

lemma ex_call_states:
  "cur_rule ex_call0 = [ex_rule (ex_verdict NFT_JUMP 1), ex_rule (ex_verdict NF_DROP 0)]"
  "stackptr ex_call0 = 0" "cur_chain ex_call0 = 0" "rulenum ex_call0 = 0"
  "cur_rule ex_call1 = [ex_rule (ex_verdict NFT_GOTO 2)]"
  "stackptr ex_call1 = 1" "cur_chain ex_call1 = 1"
  "jumpstack ex_call1 0 = \<lparr>js_chain = 0, js_rule = [ex_rule (ex_verdict NF_DROP 0)], js_rulenum = 1\<rparr>"
  "cur_rule ex_call2 = [ex_rule (ex_verdict NFT_RETURN 0)]"
  "stackptr ex_call2 = 1" "cur_chain ex_call2 = 2"
  "jumpstack ex_call2 0 = \<lparr>js_chain = 0, js_rule = [ex_rule (ex_verdict NF_DROP 0)], js_rulenum = 1\<rparr>"
  "stackptr ex_call3 = 0"
  by (simp_all add: ex_call_defs nft_eval_simps)

lemma ex_call_verdicts [simp]:
  "verdict_code (verdict (nft_rule_for_each_expr env (exprs (ex_rule (ex_verdict c t))) x pkt)) = c"
  "t < 2 ^ 32 \<Longrightarrow>
   verdict_chain (verdict (nft_rule_for_each_expr env (exprs (ex_rule (ex_verdict c t))) x pkt)) = t"
  by (simp_all add: ex_rule_def ex_verdict_def Let_def verdict_def unat_of_nat
      take_bit_nat_eq_self)

lemma ex_active: "nft_rule_active 0 (ex_rule e)"
  by (simp add: nft_rule_active_def ex_rule_def)

subsection \<open>The jump stack\<close>

lemma nft_state_wf_start: "nft_state_wf env (nft_start env b s0)"
  by (simp add: nft_state_wf_def)

lemma nft_state_wf_step:
  assumes wf: "nft_state_wf env t" and step: "nft_do_chain_step env g pkt b t = Next_rule t'"
  shows "nft_state_wf env t'"
proof -
  from wf have c: "verdict_code (verdict (regs t)) = NFT_CONTINUE"
    and cur: "set (cur_rule t) \<subseteq> set (rules (chain_at env (cur_chain t)))"
    and frames: "\<And>i. i < stackptr t \<Longrightarrow>
      set (js_rule (jumpstack t i)) \<subseteq> set (rules (chain_at env (js_chain (jumpstack t i))))"
    by (simp_all add: nft_state_wf_def)
  from step show ?thesis
  proof (cases rule: nft_do_chain_step_cases)
    case (skip r rs)
    with cur frames show ?thesis by (simp add: nft_state_wf_def c)
  next
    case (break r rs)
    with cur frames show ?thesis by (simp add: nft_state_wf_def)
  next
    case (continue r rs)
    with cur frames show ?thesis by (simp add: nft_state_wf_def)
  next
    case (jump u)
    with c obtain r rs where r: "cur_rule t = r # rs" and u: "u = nft_do_chain_rule env pkt r rs t"
      by auto
    from cur r have "set rs \<subseteq> set (rules (chain_at env (cur_chain t)))"
      by simp
    with jump(4) u frames show ?thesis
      by (simp add: nft_state_wf_def less_Suc_eq)
  next
    case (goto u)
    from goto(1) have "stackptr u = stackptr t" "jumpstack u = jumpstack t"
      by auto
    with goto(3) frames show ?thesis by (simp add: nft_state_wf_def)
  next
    case (pop u)
    with frames show ?thesis by (simp add: nft_state_wf_def)
  qed
qed

lemma nft_do_chain_step_Oops:
  assumes "nft_do_chain_step env g pkt b t = Oops e"
    and "verdict_code (verdict (regs t)) = NFT_CONTINUE"
  shows "e = BUG_ON_jumpstack \<and> NFT_JUMP_STACK_SIZE \<le> stackptr t \<and>
         (\<exists>r rs. cur_rule t = r # rs \<and> nft_rule_active g r \<and>
            verdict_code (verdict (regs (nft_do_chain_rule env pkt r rs t))) = NFT_JUMP)"
proof (cases "cur_rule t")
  case Nil
  with assms show ?thesis
    by (simp add: nft_do_chain_step_Nil nft_do_chain_verdict_eq nft_do_chain_pop_def Let_def
        split: if_splits)
next
  case (Cons r rs)
  show ?thesis
  proof (cases "nft_rule_active g r")
    case False
    with Cons assms show ?thesis by (simp add: nft_do_chain_step_skip)
  next
    case True
    with Cons assms show ?thesis
      by (simp add: nft_do_chain_step_rule nft_do_chain_verdict_eq nft_do_chain_pop_def
          nft_do_chain_goto_def Let_def split: if_splits)
  qed
qed

lemma nft_depth_inv_step:
  assumes wf: "nft_state_wf env t" and inv: "nft_depth_inv dp d t"
    and dp: "nft_jump_depth env pkt dp"
    and step: "nft_do_chain_step env g pkt b t = Next_rule t'"
  shows "nft_depth_inv dp d t'"
  using step
proof (cases rule: nft_do_chain_step_cases)
  case (skip r rs)
  with inv show ?thesis by (simp add: nft_depth_inv_def)
next
  case (break r rs)
  with inv show ?thesis by (simp add: nft_depth_inv_def)
next
  case (continue r rs)
  with inv show ?thesis by (simp add: nft_depth_inv_def)
next
  case (jump u)
  with wf obtain r rs where r: "cur_rule t = r # rs" and u: "u = nft_do_chain_rule env pkt r rs t"
    by (auto simp: nft_state_wf_def)
  from wf r have "r \<in> set (rules (chain_at env (cur_chain t)))"
    "verdict_code (verdict (regs t)) = NFT_CONTINUE"
    by (auto simp: nft_state_wf_def)
  with dp jump(2) u have "dp (verdict_chain (verdict (regs u))) < dp (cur_chain t)"
    by (auto simp: nft_jump_depth_def)
  with jump inv show ?thesis by (auto simp: nft_depth_inv_def)
next
  case (goto u)
  with wf obtain r rs where r: "cur_rule t = r # rs" and u: "u = nft_do_chain_rule env pkt r rs t"
    by (auto simp: nft_state_wf_def)
  from wf r have "r \<in> set (rules (chain_at env (cur_chain t)))"
    "verdict_code (verdict (regs t)) = NFT_CONTINUE"
    by (auto simp: nft_state_wf_def)
  with dp goto(2) u have "dp (verdict_chain (verdict (regs u))) \<le> dp (cur_chain t)"
    by (auto simp: nft_jump_depth_def)
  with goto inv show ?thesis by (auto simp: nft_depth_inv_def)
next
  case (pop u)
  from inv have frames: "\<And>i. i < stackptr t \<Longrightarrow> i + dp (js_chain (jumpstack t i)) \<le> d"
    by (simp add: nft_depth_inv_def)
  from pop(3) have "stackptr t - 1 < stackptr t" by simp
  from frames [OF this] frames pop show ?thesis
    by (simp add: nft_depth_inv_def)
qed

lemma nft_depth_inv_no_bug:
  assumes wf: "nft_state_wf env t" and inv: "nft_depth_inv dp d t"
    and dp: "nft_jump_depth env pkt dp" and d: "d \<le> NFT_JUMP_STACK_SIZE"
  shows "nft_do_chain_step env g pkt b t \<noteq> Oops e"
proof
  assume "nft_do_chain_step env g pkt b t = Oops e"
  with wf obtain r rs where full: "NFT_JUMP_STACK_SIZE \<le> stackptr t"
    and r: "cur_rule t = r # rs"
    and j: "verdict_code (verdict (regs (nft_do_chain_rule env pkt r rs t))) = NFT_JUMP"
    by (auto simp: nft_state_wf_def dest!: nft_do_chain_step_Oops)
  from wf r have "r \<in> set (rules (chain_at env (cur_chain t)))"
    "verdict_code (verdict (regs t)) = NFT_CONTINUE"
    by (auto simp: nft_state_wf_def)
  with dp j have "dp (verdict_chain (verdict (regs (nft_do_chain_rule env pkt r rs t))))
                    < dp (cur_chain t)"
    by (auto simp: nft_jump_depth_def)
  with inv have "stackptr t < d" by (simp add: nft_depth_inv_def)
  with full d show False by simp
qed

lemma nft_do_chain_loop_no_bug:
  assumes dp: "nft_jump_depth env pkt dp" and d: "d \<le> NFT_JUMP_STACK_SIZE"
  shows "nft_state_wf env s \<Longrightarrow> nft_depth_inv dp d s \<Longrightarrow>
         nft_do_chain_loop fuel env g pkt b s \<noteq> Some (Inl e)"
proof (induction fuel arbitrary: s)
  case 0
  then show ?case by simp
next
  case (Suc n)
  show ?case
  proof (cases "nft_do_chain_step env g pkt b s")
    case (Next_rule s')
    with Suc.prems have "nft_state_wf env s'" "nft_depth_inv dp d s'"
      by (auto intro: nft_state_wf_step nft_depth_inv_step [OF _ _ dp])
    with Suc.IH Next_rule show ?thesis by simp
  next
    case (Return_verdict v s')
    then show ?thesis by simp
  next
    case (Oops e')
    with nft_depth_inv_no_bug [OF Suc.prems dp d] show ?thesis by simp
  qed
qed

lemma nft_do_chain_step_jumpstack_return:
  "nft_do_chain_step env g pkt b t = Return_verdict w t' \<Longrightarrow>
   jumpstack t' = jumpstack t \<and> stackptr t' = stackptr t"
proof (cases "cur_rule t")
  case Nil
  moreover assume "nft_do_chain_step env g pkt b t = Return_verdict w t'"
  ultimately show ?thesis
    by (auto simp: nft_do_chain_step_Nil nft_do_chain_verdict_eq nft_do_chain_pop_def
        nft_do_chain_goto_def Let_def split: if_splits)
next
  case (Cons r rs)
  moreover assume "nft_do_chain_step env g pkt b t = Return_verdict w t'"
  ultimately show ?thesis
    by (cases "nft_rule_active g r")
      (auto simp: nft_do_chain_step_skip nft_do_chain_step_rule nft_do_chain_verdict_eq
        nft_do_chain_pop_def nft_do_chain_goto_def Let_def split: if_splits)
qed

lemma nft_do_chain_step_jumpstack_next:
  assumes "nft_do_chain_step env g pkt b t = Next_rule t'"
  shows "(\<forall>i. NFT_JUMP_STACK_SIZE \<le> i \<longrightarrow> jumpstack t' i = jumpstack t i) \<and>
         (stackptr t \<le> NFT_JUMP_STACK_SIZE \<longrightarrow> stackptr t' \<le> NFT_JUMP_STACK_SIZE)"
  using assms
proof (cases rule: nft_do_chain_step_cases)
  case (jump u)
  from jump(1) have "stackptr u = stackptr t" "jumpstack u = jumpstack t"
    by auto
  with jump(3,4) show ?thesis by simp
next
  case (goto u)
  from goto(1) have "stackptr u = stackptr t" "jumpstack u = jumpstack t"
    by auto
  with goto(3) show ?thesis by simp
next
  case (pop u)
  then show ?thesis by auto
qed simp_all

lemma ex_call_depth_ok: "nft_jump_depth ex_call_env ex_pkt ex_call_depth"
  by (auto simp: nft_jump_depth_def ex_call_depth_def ex_call_env_def ex_env_def ex_chain_def
      ex_no_chains_def nft_code_defs)

subsection \<open>The generation cursor and the history of evaluated rules\<close>









lemma nft_do_chain_verdict_evaluated:
  "nft_do_chain_verdict env pkt b u = Next_rule t' \<Longrightarrow> evaluated t' = evaluated u"
  "nft_do_chain_verdict env pkt b u = Return_verdict w t' \<Longrightarrow> evaluated t' = evaluated u"
  by (auto simp: nft_do_chain_verdict_eq nft_do_chain_goto_def nft_do_chain_pop_def
      do_chain_def next_rule_def nft_trace_packet_eq Let_def split: if_splits)

lemma nft_do_chain_step_evaluated:
  assumes "nft_do_chain_step env g pkt b t = Next_rule t' \<or>
           nft_do_chain_step env g pkt b t = Return_verdict w t'"
  shows "evaluated t' = evaluated t \<or> (\<exists>r. evaluated t' = evaluated t @ [r] \<and> nft_rule_active g r)"
proof (cases "cur_rule t")
  case Nil
  with assms show ?thesis
    by (auto simp: nft_do_chain_step_Nil dest: nft_do_chain_verdict_evaluated)
next
  case (Cons r rs)
  show ?thesis
  proof (cases "nft_rule_active g r")
    case False
    with Cons assms show ?thesis
      by (auto simp: nft_do_chain_step_skip)
  next
    case True
    with Cons assms have "evaluated t' = evaluated t @ [r]"
      by (auto simp: nft_do_chain_step_rule Let_def next_rule_def nft_trace_packet_eq
          split: if_splits dest: nft_do_chain_verdict_evaluated)
    with True show ?thesis by blast
  qed
qed



subsection \<open>Termination\<close>

lemma nft_weight_pos: "0 < nft_weight N rk c rs"
  by (simp add: nft_weight_def)

lemma nft_weight_Cons: "nft_weight N rk c (r # rs) = nft_weight N rk c rs + (N + 2) ^ rk c"
  by (simp add: nft_weight_def)

lemma nft_weight_target:
  assumes "length rs \<le> N" and "rk c' < rk c"
  shows "nft_weight N rk c' rs < (N + 2) ^ rk c"
proof -
  have "nft_weight N rk c' rs \<le> (N + 1) * (N + 2) ^ rk c'"
    using assms(1) by (simp add: nft_weight_def)
  also have "\<dots> < (N + 2) * (N + 2) ^ rk c'"
    by simp
  also have "\<dots> = (N + 2) ^ Suc (rk c')"
    by simp
  also from assms(2) have "\<dots> \<le> (N + 2) ^ rk c"
    by (intro power_increasing) simp_all
  finally show ?thesis .
qed

lemma nft_measure_step:
  assumes wf: "nft_state_wf env t" and rank: "nft_chain_rank env pkt rk"
    and len: "\<forall>c. length (rules (chain_at env c)) \<le> N"
    and step: "nft_do_chain_step env g pkt b t = Next_rule t'"
  shows "nft_measure N rk t' < nft_measure N rk t"
proof -
  from wf have c: "verdict_code (verdict (regs t)) = NFT_CONTINUE"
    and cur: "set (cur_rule t) \<subseteq> set (rules (chain_at env (cur_chain t)))"
    by (simp_all add: nft_state_wf_def)
  have target: "nft_weight N rk (verdict_chain (verdict (regs u)))
                  (rules (chain_at env (verdict_chain (verdict (regs u)))))
                < (N + 2) ^ rk (cur_chain t)"
    if u: "u = t \<and> cur_rule t = [] \<or>
           (\<exists>r rs. cur_rule t = r # rs \<and> nft_rule_active g r \<and> u = nft_do_chain_rule env pkt r rs t)"
      and v: "verdict_code (verdict (regs u)) = NFT_JUMP \<or> verdict_code (verdict (regs u)) = NFT_GOTO"
    for u
  proof -
    from u v c obtain r rs where r: "cur_rule t = r # rs" and u': "u = nft_do_chain_rule env pkt r rs t"
      by auto
    from cur r have "r \<in> set (rules (chain_at env (cur_chain t)))" by simp
    with rank c v u' have "rk (verdict_chain (verdict (regs u))) < rk (cur_chain t)"
      by (auto simp: nft_chain_rank_def)
    with len show ?thesis by (intro nft_weight_target) simp_all
  qed
  from step show ?thesis
  proof (cases rule: nft_do_chain_step_cases)
    case (skip r rs)
    then show ?thesis by (simp add: nft_measure_def nft_weight_Cons)
  next
    case (break r rs)
    then show ?thesis by (simp add: nft_measure_def nft_weight_Cons)
  next
    case (continue r rs)
    then show ?thesis by (simp add: nft_measure_def nft_weight_Cons)
  next
    case (jump u)
    with c obtain r rs where r: "cur_rule t = r # rs" and u: "u = nft_do_chain_rule env pkt r rs t"
      by auto
    from jump(1,2) have "nft_weight N rk (verdict_chain (verdict (regs u)))
                  (rules (chain_at env (verdict_chain (verdict (regs u)))))
                < (N + 2) ^ rk (cur_chain t)"
      by (intro target) simp_all
    with jump(4) r u show ?thesis
      by (simp add: nft_measure_def nft_weight_Cons)
  next
    case (goto u)
    with c obtain r rs where r: "cur_rule t = r # rs" and u: "u = nft_do_chain_rule env pkt r rs t"
      by auto
    from goto(1,2) have "nft_weight N rk (verdict_chain (verdict (regs u)))
                  (rules (chain_at env (verdict_chain (verdict (regs u)))))
                < (N + 2) ^ rk (cur_chain t)"
      by (intro target) simp_all
    with goto(3) r u show ?thesis
      by (simp add: nft_measure_def nft_weight_Cons)
  next
    case (pop u)
    from pop(3) obtain k where k: "stackptr t = Suc k"
      by (cases "stackptr t") simp_all
    with pop show ?thesis
      using nft_weight_pos [of N rk "cur_chain t" "cur_rule t"]
      by (simp add: nft_measure_def)
  qed
qed

lemma nft_do_chain_loop_terminates:
  assumes rank: "nft_chain_rank env pkt rk"
    and len: "\<forall>c. length (rules (chain_at env c)) \<le> N"
  shows "nft_state_wf env s \<Longrightarrow> nft_measure N rk s < fuel \<Longrightarrow>
         \<exists>res. nft_do_chain_loop fuel env g pkt b s = Some res"
proof (induction fuel arbitrary: s)
  case 0
  then show ?case by simp
next
  case (Suc n)
  show ?case
  proof (cases "nft_do_chain_step env g pkt b s")
    case (Next_rule s')
    from nft_measure_step [OF Suc.prems(1) rank len Next_rule] Suc.prems(2)
    have "nft_measure N rk s' < n" by simp
    moreover from Suc.prems(1) Next_rule have "nft_state_wf env s'"
      by (rule nft_state_wf_step)
    ultimately have "\<exists>res. nft_do_chain_loop n env g pkt b s' = Some res"
      by (intro Suc.IH)
    with Next_rule show ?thesis by simp
  next
    case (Return_verdict v s')
    then show ?thesis by simp
  next
    case (Oops e)
    then show ?thesis by simp
  qed
qed

lemma nft_do_chain_loop_more_fuel:
  "nft_do_chain_loop n env g pkt b s = Some res \<Longrightarrow>
   nft_do_chain_loop (n + k) env g pkt b s = Some res"
  by (induction n arbitrary: s) (auto split: nft_flow.splits)

lemma nft_do_chain_loop_evaluated_length:
  "nft_do_chain_loop fuel env g pkt b s = Some (Inr (v, s')) \<Longrightarrow>
   length (evaluated s') \<le> length (evaluated s) + fuel"
proof (induction fuel arbitrary: s)
  case 0
  then show ?case by simp
next
  case (Suc n)
  show ?case
  proof (cases "nft_do_chain_step env g pkt b s")
    case (Next_rule t)
    with Suc.prems have "nft_do_chain_loop n env g pkt b t = Some (Inr (v, s'))"
      by simp
    from Suc.IH [OF this] nft_do_chain_step_evaluated [of env g pkt b s t, OF disjI1, OF Next_rule]
    show ?thesis by auto
  next
    case (Return_verdict w t)
    with Suc.prems have "t = s'" by simp
    with nft_do_chain_step_evaluated [of env g pkt b s t w, OF disjI2, OF Return_verdict]
    show ?thesis by auto
  next
    case (Oops e)
    with Suc.prems show ?thesis by simp
  qed
qed

lemma ex_call_rank_ok: "nft_chain_rank ex_call_env ex_pkt ex_call_rank"
  by (auto simp: nft_chain_rank_def ex_call_rank_def ex_call_env_def ex_env_def ex_chain_def
      ex_no_chains_def nft_code_defs)

lemma ex_call_length: "\<forall>c. length (rules (chain_at ex_call_env c)) \<le> 2"
  by (simp add: ex_call_env_def ex_env_def ex_chain_def ex_no_chains_def)

lemma nft_do_chain_verdict_device: "nft_do_chain_verdict env pkt b s \<noteq> Oops NULL_device"
  by (simp add: nft_do_chain_verdict_eq nft_do_chain_goto_def nft_do_chain_pop_def Let_def)

lemma nft_do_chain_step_device: "nft_do_chain_step env g pkt b s \<noteq> Oops NULL_device"
  by (simp add: nft_do_chain_step_def nft_do_chain_verdict_device Let_def split: list.split)

lemma nft_do_chain_loop_device:
  "nft_do_chain_loop fuel env g pkt b s \<noteq> Some (Inl NULL_device)"
  by (induction fuel arbitrary: s)
    (auto simp: nft_do_chain_step_device split: nft_flow.splits)

subsection \<open>Fast compare\<close>

text \<open>
  C7. On a register file whose verdict is \<open>Continue\<close>, the fast compare leaves \<open>Break\<close> in
  the verdict register exactly when the masked source register differs from the immediate;
  when they are equal the register file is returned as it was. This holds for every source
  register, the four that are the memory of the verdict included. The only word the
  function writes is the verdict's code, \<^verbatim>\<open>data[0]\<close>: every other register and the verdict's
  chain are unchanged, and the evaluator's dispatch on \<^verbatim>\<open>&nft_cmp_fast_ops\<close> runs this
  function and no other.
\<close>

theorem nft_cmp_fast_eval_break_iff:
  assumes "verdict_code (verdict r) = NFT_CONTINUE"
  shows "(verdict_code (verdict (nft_cmp_fast_eval env priv r)) = NFT_BREAK \<longleftrightarrow>
            data r (cmp_sreg priv) AND nft_cmp_fast_mask env (cmp_len priv) \<noteq> cmp_data priv) \<and>
         (data r (cmp_sreg priv) AND nft_cmp_fast_mask env (cmp_len priv) = cmp_data priv \<longrightarrow>
            nft_cmp_fast_eval env priv r = r) \<and>
         (data r (cmp_sreg priv) AND nft_cmp_fast_mask env (cmp_len priv) \<noteq> cmp_data priv \<longrightarrow>
            data (nft_cmp_fast_eval env priv r) = (data r)(0 := NFT_BREAK)) \<and>
         (\<forall>i. i \<noteq> 0 \<longrightarrow> data (nft_cmp_fast_eval env priv r) i = data r i) \<and>
         verdict_chain (verdict (nft_cmp_fast_eval env priv r)) = verdict_chain (verdict r) \<and>
         nft_expr_eval env (Cmp_fast priv) r pkt = nft_cmp_fast_eval env priv r"
  using assms
  by (simp add: nft_cmp_fast_eval_def Let_def verdict_code_store_data)

theorem nft_cmp_fast_eval_break_iff_witness:
  "verdict_code (verdict (ex_regs 0x11)) = NFT_CONTINUE \<and>
   verdict_code (verdict (nft_cmp_fast_eval (ex_env False ex_no_chains) ex_cmp (ex_regs 0x11)))
     = NFT_BREAK \<and>
   data (nft_cmp_fast_eval (ex_env False ex_no_chains) ex_cmp (ex_regs 0x11)) 4 = 0x11 \<and>
   verdict_code (verdict (ex_regs 0x06)) = NFT_CONTINUE \<and>
   nft_cmp_fast_eval (ex_env False ex_no_chains) ex_cmp (ex_regs 0x06) = ex_regs 0x06"
proof -
  have c: "verdict_code (verdict (ex_regs v)) = NFT_CONTINUE" for v
    by (simp add: ex_regs_def verdict_def)
  have ne: "data (ex_regs 0x11) (cmp_sreg ex_cmp)
              AND nft_cmp_fast_mask (ex_env False ex_no_chains) (cmp_len ex_cmp) \<noteq> cmp_data ex_cmp"
    by (simp add: ex_defs ex_cmp_def)
  have eq: "data (ex_regs 0x06) (cmp_sreg ex_cmp)
              AND nft_cmp_fast_mask (ex_env False ex_no_chains) (cmp_len ex_cmp) = cmp_data ex_cmp"
    by (simp add: ex_defs ex_cmp_def)
  have d: "data (ex_regs 0x11) 4 = 0x11"
    by (simp add: ex_regs_def)
  from nft_cmp_fast_eval_break_iff [where r = "ex_regs 0x11" and env = "ex_env False ex_no_chains"
      and priv = ex_cmp, OF c] ne
  have 1: "verdict_code (verdict (nft_cmp_fast_eval (ex_env False ex_no_chains) ex_cmp
             (ex_regs 0x11))) = NFT_BREAK"
    by blast
  from nft_cmp_fast_eval_break_iff [where r = "ex_regs 0x11" and env = "ex_env False ex_no_chains"
      and priv = ex_cmp, OF c]
  have "data (nft_cmp_fast_eval (ex_env False ex_no_chains) ex_cmp (ex_regs 0x11)) 4
          = data (ex_regs 0x11) 4"
    by simp
  with d have 3: "data (nft_cmp_fast_eval (ex_env False ex_no_chains) ex_cmp (ex_regs 0x11)) 4
          = 0x11"
    by simp
  from nft_cmp_fast_eval_break_iff [where r = "ex_regs 0x06" and env = "ex_env False ex_no_chains"
      and priv = ex_cmp, OF c] eq
  have 2: "nft_cmp_fast_eval (ex_env False ex_no_chains) ex_cmp (ex_regs 0x06) = ex_regs 0x06"
    by blast
  from c 1 3 2 show ?thesis by simp
qed

subsection \<open>Fast payload load\<close>

text \<open>
  C8. The address of the load plus its length is compared with the tail of the buffer before
  anything is copied. When the sum reaches the tail (every load that would run past the
  buffer, and the one that ends exactly at it), the fast path returns false with the
  register file untouched and the evaluator calls the expression's generic \<^verbatim>\<open>eval\<close> on
  that register file: no error arises. When the fast path returns true, the bytes it read
  lie below the tail and the evaluator takes its register file without calling \<^verbatim>\<open>eval\<close>.
\<close>

theorem nft_payload_fast_eval_bounds:
  "(skb_tail_pointer (skb pkt) \<le> nft_payload_ptr priv pkt + pl_len priv \<longrightarrow>
      nft_payload_fast_eval env priv r pkt = (False, r) \<and>
      nft_expr_eval env (Payload_fast priv eval) r pkt = eval r pkt) \<and>
   (fst (nft_payload_fast_eval env priv r pkt) \<longrightarrow>
      nft_payload_ptr priv pkt + pl_len priv < skb_tail_pointer (skb pkt) \<and>
      nft_expr_eval env (Payload_fast priv eval) r pkt
        = snd (nft_payload_fast_eval env priv r pkt))"
  by (simp add: nft_payload_fast_eval_def Let_def)

theorem nft_payload_fast_eval_bounds_witness:
  "skb_tail_pointer (skb ex_pkt) \<le> nft_payload_ptr (ex_payload 58 4) ex_pkt + pl_len (ex_payload 58 4) \<and>
   nft_payload_fast_eval (ex_env False ex_no_chains) (ex_payload 58 4) (ex_regs 0) ex_pkt
     = (False, ex_regs 0) \<and>
   nft_expr_eval (ex_env False ex_no_chains)
       (Payload_fast (ex_payload 58 4) (\<lambda>r pkt. verdict_code_store NFT_BREAK r))
       (ex_regs 0) ex_pkt
     = verdict_code_store NFT_BREAK (ex_regs 0) \<and>
   fst (nft_payload_fast_eval (ex_env False ex_no_chains) (ex_payload 9 1) (ex_regs 0) ex_pkt) \<and>
   nft_payload_ptr (ex_payload 9 1) ex_pkt + pl_len (ex_payload 9 1) < skb_tail_pointer (skb ex_pkt)"
proof -
  have out: "skb_tail_pointer (skb ex_pkt)
               \<le> nft_payload_ptr (ex_payload 58 4) ex_pkt + pl_len (ex_payload 58 4)"
    by (simp add: ex_defs ex_payload_def nft_payload_ptr_def)
  have ok: "fst (nft_payload_fast_eval (ex_env False ex_no_chains) (ex_payload 9 1) (ex_regs 0) ex_pkt)"
    by (simp add: ex_defs ex_payload_def nft_payload_ptr_def nft_payload_fast_eval_def)
  from out ok
    nft_payload_fast_eval_bounds [of ex_pkt "ex_payload 58 4" "ex_env False ex_no_chains" "ex_regs 0"
      "\<lambda>r pkt. verdict_code_store NFT_BREAK r"]
    nft_payload_fast_eval_bounds [of ex_pkt "ex_payload 9 1" "ex_env False ex_no_chains" "ex_regs 0"
      "\<lambda>r pkt. r"]
  show ?thesis by blast
qed

subsection \<open>Foreign namespace\<close>

text \<open>
  C9. When the namespace of the packet's device differs from the namespace of the base
  chain, \<^verbatim>\<open>nft_do_chain\<close> returns \<^verbatim>\<open>NF_ACCEPT\<close> whatever the fuel: the state it returns is the
  one it was called on with only the locals \<^verbatim>\<open>chain\<close> and \<^verbatim>\<open>stackptr\<close> initialised, so no
  rule was evaluated, no trace event was emitted, nothing was logged and the statistics are
  unchanged.
\<close>

theorem nft_do_chain_foreign_net:
  assumes "nft_pkt_net pkt = Some net" and "net \<noteq> pnet (chain_at env basechain)"
  shows "nft_do_chain fuel env pkt basechain s0
           = Some (Inr (NF_ACCEPT, s0\<lparr>cur_chain := basechain, stackptr := 0\<rparr>)) \<and>
         evaluated (s0\<lparr>cur_chain := basechain, stackptr := 0\<rparr>) = evaluated s0 \<and>
         trace_log (s0\<lparr>cur_chain := basechain, stackptr := 0\<rparr>) = trace_log s0 \<and>
         warnings (s0\<lparr>cur_chain := basechain, stackptr := 0\<rparr>) = warnings s0 \<and>
         stats (s0\<lparr>cur_chain := basechain, stackptr := 0\<rparr>) = stats s0"
  using assms by (simp add: nft_do_chain_def)

theorem nft_do_chain_foreign_net_witness:
  "nft_pkt_net ex_pkt = Some 0 \<and>
   0 \<noteq> pnet (chain_at (ex_env True (ex_no_chains(0 := \<lparr>rules = [ex_rule (ex_verdict NF_DROP 0)],
                                                      policy = NF_DROP, pnet = 1\<rparr>))) 0) \<and>
   nft_do_chain 5 (ex_env True (ex_no_chains(0 := \<lparr>rules = [ex_rule (ex_verdict NF_DROP 0)],
                                                   policy = NF_DROP, pnet = 1\<rparr>))) ex_pkt 0 ex_state
     = Some (Inr (NF_ACCEPT, ex_state\<lparr>cur_chain := 0, stackptr := 0\<rparr>))"
proof -
  have 1: "nft_pkt_net ex_pkt = Some 0"
    by (simp add: nft_pkt_net_def ex_pkt_def)
  have 2: "0 \<noteq> pnet (chain_at (ex_env True (ex_no_chains(0 := \<lparr>rules = [ex_rule (ex_verdict NF_DROP 0)],
                                                      policy = NF_DROP, pnet = 1\<rparr>))) 0)"
    by (simp add: ex_env_def)
  from 1 2 nft_do_chain_foreign_net [OF 1 2, of 5 ex_state] show ?thesis by simp
qed

subsection \<open>Statistics\<close>

text \<open>
  C10. When the evaluation of a rule leaves a disposition in the verdict register (the low
  byte of the code is \<^verbatim>\<open>NF_ACCEPT\<close>, \<^verbatim>\<open>NF_DROP\<close> or \<^verbatim>\<open>NF_QUEUE\<close>), that pass of the loop
  returns the code and the statistics are those before the pass. For a whole call on a
  packet of the chain's namespace: if the verdict register holds a disposition when the
  call returns, the call returned that code and the statistics of the base chain are those
  the call started with; otherwise the call returned the base chain's policy and counted the
  packet once. So the counters move on the policy path only.
\<close>

theorem nft_do_chain_disposition_stats:
  "(cur_rule s = r # rs \<and> nft_rule_active g r \<and>
      nft_disposition (verdict_code (verdict (regs (nft_do_chain_rule env pkt r rs s)))) \<longrightarrow>
      nft_do_chain_step env g pkt b s =
        Return_verdict (verdict_code (verdict (regs (nft_do_chain_rule env pkt r rs s))))
          (nft_trace_packet env pkt (nft_do_chain_rule env pkt r rs s) (cur_chain s)
             (rulenum s + 1) NFT_TRACETYPE_RULE) \<and>
      stats (nft_trace_packet env pkt (nft_do_chain_rule env pkt r rs s) (cur_chain s)
               (rulenum s + 1) NFT_TRACETYPE_RULE) = stats s) \<and>
   (nft_pkt_net pkt = Some (pnet (chain_at env b)) \<and>
      nft_do_chain fuel env pkt b s0 = Some (Inr (v, s')) \<longrightarrow>
      (if nft_disposition (verdict_code (verdict (regs s')))
       then v = verdict_code (verdict (regs s')) \<and> stats s' = stats s0
       else v = policy (chain_at env b) \<and> stats s' = nft_stats_add pkt (stats s0)))"
proof (intro conjI impI)
  assume a: "cur_rule s = r # rs \<and> nft_rule_active g r \<and>
      nft_disposition (verdict_code (verdict (regs (nft_do_chain_rule env pkt r rs s))))"
  then show "nft_do_chain_step env g pkt b s =
        Return_verdict (verdict_code (verdict (regs (nft_do_chain_rule env pkt r rs s))))
          (nft_trace_packet env pkt (nft_do_chain_rule env pkt r rs s) (cur_chain s)
             (rulenum s + 1) NFT_TRACETYPE_RULE)"
    by (simp add: nft_do_chain_step_rule nft_do_chain_verdict_eq Let_def)
  show "stats (nft_trace_packet env pkt (nft_do_chain_rule env pkt r rs s) (cur_chain s)
               (rulenum s + 1) NFT_TRACETYPE_RULE) = stats s"
    by (simp add: nft_trace_packet_eq)
next
  let ?g = "nft_genmask_cur env (pnet (chain_at env b))"
  assume a: "nft_pkt_net pkt = Some (pnet (chain_at env b)) \<and>
      nft_do_chain fuel env pkt b s0 = Some (Inr (v, s'))"
  then have net: "nft_pkt_net pkt = Some (pnet (chain_at env b))"
    and res: "nft_do_chain fuel env pkt b s0 = Some (Inr (v, s'))"
    by simp_all
  from res have run: "nft_do_chain_loop fuel env ?g pkt b (nft_start env b s0) = Some (Inr (v, s'))"
    unfolding nft_do_chain_own_net [OF net] .
  show "if nft_disposition (verdict_code (verdict (regs s')))
       then v = verdict_code (verdict (regs s')) \<and> stats s' = stats s0
       else v = policy (chain_at env b) \<and> stats s' = nft_stats_add pkt (stats s0)"
  proof (rule nft_do_chain_loop_invariant [OF run, where I = "\<lambda>t. stats t = stats s0"])
    show "stats (nft_start env b s0) = stats s0" by simp
  next
    fix t t' assume "stats t = stats s0" "nft_do_chain_step env ?g pkt b t = Next_rule t'"
    then show "stats t' = stats s0" by (simp add: nft_do_chain_step_stats_next)
  next
    fix t w t' assume "stats t = stats s0" "nft_do_chain_step env ?g pkt b t = Return_verdict w t'"
    with nft_do_chain_step_stats_return [of env ?g pkt b t w t']
    show "if nft_disposition (verdict_code (verdict (regs t')))
       then w = verdict_code (verdict (regs t')) \<and> stats t' = stats s0
       else w = policy (chain_at env b) \<and> stats t' = nft_stats_add pkt (stats s0)"
      by (simp split: if_splits)
  qed
qed

theorem nft_do_chain_disposition_stats_witness:
  "nft_pkt_net ex_pkt = Some (pnet (chain_at (ex_drop_env True) 0)) \<and>
   nft_returned (nft_do_chain 2 (ex_drop_env True) ex_pkt 0 ex_state) = Some NF_DROP \<and>
   map_option stats (nft_final (nft_do_chain 2 (ex_drop_env True) ex_pkt 0 ex_state))
     = Some (stats ex_state)"
proof -
  have net: "nft_pkt_net ex_pkt = Some (pnet (chain_at (ex_drop_env True) 0))"
    by (simp add: nft_pkt_net_def ex_defs ex_drop_env_def)
  obtain v s' where run: "nft_do_chain 2 (ex_drop_env True) ex_pkt 0 ex_state = Some (Inr (v, s'))"
    and v: "v = NF_DROP" and d: "nft_disposition (verdict_code (verdict (regs s')))"
    by (simp add: nft_run_simps ex_drop_env_def nft_disposition_def)
  from nft_do_chain_disposition_stats [of _ _ _ _ "ex_drop_env True" ex_pkt 0 2 ex_state v s'] net run d
  have "stats s' = stats ex_state" by simp
  with net run v show ?thesis by (simp add: nft_returned_def nft_final_def)
qed

subsection \<open>Unrecognised verdict codes\<close>

text \<open>
  C1, as the code has it. When the evaluation of a rule leaves a code that is neither a
  disposition nor one of \<open>Continue\<close>, \<open>Break\<close>, \<open>Jump\<close>, \<open>Goto\<close>, \<open>Return\<close>, the evaluator
  reports it once (\<^verbatim>\<open>WARN_ON\<close>) and goes on as after \<open>Return\<close>, without the return trace
  event: with a frame on the jump stack it pops the frame and resumes the calling chain;
  with an empty stack it traces the policy, counts the packet and returns the base chain's
  policy. It does not return \<^verbatim>\<open>NF_DROP\<close> unless that is the policy.
\<close>

theorem nft_do_chain_unknown_verdict:
  assumes "cur_rule s = r # rs" and "nft_rule_active g r"
    and "c = verdict_code (verdict (regs (nft_do_chain_rule env pkt r rs s)))"
    and "\<not> nft_disposition c"
    and "c \<noteq> NFT_CONTINUE" and "c \<noteq> NFT_BREAK" and "c \<noteq> NFT_JUMP" and "c \<noteq> NFT_GOTO"
    and "c \<noteq> NFT_RETURN"
  shows "nft_do_chain_step env g pkt b s =
           (if 0 < stackptr s then
              Next_rule (next_rule ((nft_do_chain_rule env pkt r rs s)
                \<lparr>warnings := warnings s + 1, stackptr := stackptr s - 1,
                  cur_chain := js_chain (jumpstack s (stackptr s - 1)),
                  cur_rule := js_rule (jumpstack s (stackptr s - 1)),
                  rulenum := js_rulenum (jumpstack s (stackptr s - 1))\<rparr>))
            else
              Return_verdict (policy (chain_at env b))
                ((nft_trace_packet env pkt
                    ((nft_do_chain_rule env pkt r rs s)\<lparr>warnings := warnings s + 1\<rparr>)
                    b (- 1) NFT_TRACETYPE_POLICY)
                 \<lparr>stats := nft_stats_add pkt (stats s)\<rparr>))"
  using assms
  by (simp add: nft_do_chain_step_rule nft_do_chain_verdict_eq nft_do_chain_pop_def Let_def
      nft_trace_packet_eq nft_stats_add_def)

theorem nft_do_chain_unknown_verdict_witness:
  "cur_rule (nft_start ex_unknown_env 0 ex_state) = [ex_rule (ex_verdict 7 0)] \<and>
   nft_rule_active 0 (ex_rule (ex_verdict 7 0)) \<and>
   verdict_code (verdict (regs (nft_do_chain_rule ex_unknown_env ex_pkt (ex_rule (ex_verdict 7 0)) []
     (nft_start ex_unknown_env 0 ex_state)))) = 7 \<and>
   \<not> nft_disposition 7 \<and>
   nft_do_chain_step ex_unknown_env 0 ex_pkt 0 (nft_start ex_unknown_env 0 ex_state) =
     Return_verdict NF_ACCEPT
       ((nft_do_chain_rule ex_unknown_env ex_pkt (ex_rule (ex_verdict 7 0)) []
           (nft_start ex_unknown_env 0 ex_state))
        \<lparr>warnings := 1, stats := \<lparr>pkts = 1, bytes = 60\<rparr>\<rparr>)"
proof -
  let ?s = "nft_start ex_unknown_env 0 ex_state"
  let ?r = "ex_rule (ex_verdict 7 0)"
  have 1: "cur_rule ?s = [?r]"
    by (simp add: ex_defs ex_unknown_env_def)
  have 2: "nft_rule_active 0 ?r"
    by (simp add: nft_rule_active_def ex_defs)
  have 3: "7 = verdict_code (verdict (regs (nft_do_chain_rule ex_unknown_env ex_pkt ?r [] ?s)))"
    by (simp add: ex_defs ex_unknown_env_def Let_def nft_code_defs)
  have 4: "\<not> nft_disposition 7"
    by (simp add: nft_disposition_def nft_code_defs)
  have 5: "(7 :: u32) \<noteq> NFT_CONTINUE" "(7 :: u32) \<noteq> NFT_BREAK" "(7 :: u32) \<noteq> NFT_JUMP"
    "(7 :: u32) \<noteq> NFT_GOTO" "(7 :: u32) \<noteq> NFT_RETURN"
    by (simp_all add: nft_code_defs)
  from nft_do_chain_unknown_verdict [OF 1 2 3 4 5, of 0] 1 2 3 4
  show ?thesis
    by (simp add: nft_trace_packet_eq nft_tracing_def nft_stats_add_def ex_defs ex_unknown_env_def)
qed

text \<open>
  The claim as stated fails: a base chain with policy \<^verbatim>\<open>NF_ACCEPT\<close> whose only rule leaves
  the code 7 in the verdict register. The call warns once and returns \<^verbatim>\<open>NF_ACCEPT\<close>.
\<close>

theorem nft_do_chain_unknown_verdict_counterexample:
  "nft_returned (nft_do_chain 2 ex_unknown_env ex_pkt 0 ex_state) = Some NF_ACCEPT \<and>
   map_option warnings (nft_final (nft_do_chain 2 ex_unknown_env ex_pkt 0 ex_state)) = Some 1 \<and>
   NF_ACCEPT \<noteq> NF_DROP"
  by (simp add: nft_run_simps ex_unknown_env_def)

subsection \<open>The default policy\<close>

text \<open>
  C6, as the code has it. A pass that finds the rule list exhausted, or whose rule leaves
  \<open>Return\<close>, with an empty jump stack, ends the call: it adds one packet and the packet's
  \<^verbatim>\<open>skb->len\<close> bytes to the statistics and returns the base chain's policy. The return
  event and the policy event are emitted when tracing is on for the packet (the static key,
  \<^verbatim>\<open>info.trace\<close> and \<^verbatim>\<open>skb->nf_trace\<close>), and no event is emitted otherwise. In particular a
  packet of the chain's namespace that matches no rule of the base chain gets the policy
  after one pass for each rule and one more, so \<^verbatim>\<open>NF_DROP\<close> when the policy is \<^verbatim>\<open>NF_DROP\<close>.
\<close>

theorem nft_do_chain_policy:
  "(stackptr s = 0 \<and> cur_rule s = [] \<and> verdict_code (verdict (regs s)) = NFT_CONTINUE \<longrightarrow>
      nft_do_chain_step env g pkt b s =
        Return_verdict (policy (chain_at env b))
          (s\<lparr>rulenum := rulenum s + 1,
             trace_log := trace_log s @
               (if nft_tracing env pkt s
                then [\<lparr>ev_chain = cur_chain s, ev_rulenum = rulenum s + 1, ev_type = NFT_TRACETYPE_RETURN\<rparr>,
                      \<lparr>ev_chain = b, ev_rulenum = - 1, ev_type = NFT_TRACETYPE_POLICY\<rparr>]
                else []),
             stats := nft_stats_add pkt (stats s)\<rparr>)) \<and>
   (stackptr s = 0 \<and> cur_rule s = r # rs \<and> nft_rule_active g r \<and>
      verdict_code (verdict (regs (nft_do_chain_rule env pkt r rs s))) = NFT_RETURN \<longrightarrow>
      nft_do_chain_step env g pkt b s =
        Return_verdict (policy (chain_at env b))
          ((nft_do_chain_rule env pkt r rs s)
           \<lparr>trace_log := trace_log s @
               (if nft_tracing env pkt s
                then [\<lparr>ev_chain = cur_chain s, ev_rulenum = rulenum s + 1, ev_type = NFT_TRACETYPE_RETURN\<rparr>,
                      \<lparr>ev_chain = b, ev_rulenum = - 1, ev_type = NFT_TRACETYPE_POLICY\<rparr>]
                else []),
             stats := nft_stats_add pkt (stats s)\<rparr>)) \<and>
   (nft_pkt_net pkt = Some (pnet (chain_at env b)) \<and>
      nft_no_match env (nft_genmask_cur env (pnet (chain_at env b))) pkt (rules (chain_at env b)) \<longrightarrow>
      (\<exists>s'. nft_do_chain (Suc (length (rules (chain_at env b)))) env pkt b s0
               = Some (Inr (policy (chain_at env b), s')) \<and>
            stats s' = nft_stats_add pkt (stats s0) \<and>
            trace_log s' = trace_log s0 @
              (if nft_trace_enabled env \<and> nft_trace_init env \<and> nf_trace (skb pkt)
               then [\<lparr>ev_chain = b,
                      ev_rulenum = int (length (filter
                        (nft_rule_active (nft_genmask_cur env (pnet (chain_at env b))))
                        (rules (chain_at env b)))) + 1,
                      ev_type = NFT_TRACETYPE_RETURN\<rparr>,
                     \<lparr>ev_chain = b, ev_rulenum = - 1, ev_type = NFT_TRACETYPE_POLICY\<rparr>]
               else [])))"
proof (intro conjI impI)
  assume "stackptr s = 0 \<and> cur_rule s = [] \<and> verdict_code (verdict (regs s)) = NFT_CONTINUE"
  then show "nft_do_chain_step env g pkt b s =
        Return_verdict (policy (chain_at env b))
          (s\<lparr>rulenum := rulenum s + 1,
             trace_log := trace_log s @
               (if nft_tracing env pkt s
                then [\<lparr>ev_chain = cur_chain s, ev_rulenum = rulenum s + 1, ev_type = NFT_TRACETYPE_RETURN\<rparr>,
                      \<lparr>ev_chain = b, ev_rulenum = - 1, ev_type = NFT_TRACETYPE_POLICY\<rparr>]
                else []),
             stats := nft_stats_add pkt (stats s)\<rparr>)"
    by (simp add: nft_do_chain_step_Nil nft_do_chain_verdict_eq nft_do_chain_pop_def Let_def
        nft_trace_packet_eq nft_stats_add_def nft_tracing_def)
next
  assume "stackptr s = 0 \<and> cur_rule s = r # rs \<and> nft_rule_active g r \<and>
      verdict_code (verdict (regs (nft_do_chain_rule env pkt r rs s))) = NFT_RETURN"
  then show "nft_do_chain_step env g pkt b s =
        Return_verdict (policy (chain_at env b))
          ((nft_do_chain_rule env pkt r rs s)
           \<lparr>trace_log := trace_log s @
               (if nft_tracing env pkt s
                then [\<lparr>ev_chain = cur_chain s, ev_rulenum = rulenum s + 1, ev_type = NFT_TRACETYPE_RETURN\<rparr>,
                      \<lparr>ev_chain = b, ev_rulenum = - 1, ev_type = NFT_TRACETYPE_POLICY\<rparr>]
                else []),
             stats := nft_stats_add pkt (stats s)\<rparr>)"
    by (simp add: nft_do_chain_step_rule nft_do_chain_verdict_eq nft_do_chain_pop_def Let_def
        nft_trace_packet_eq nft_stats_add_def nft_tracing_def)
next
  let ?g = "nft_genmask_cur env (pnet (chain_at env b))"
  assume a: "nft_pkt_net pkt = Some (pnet (chain_at env b)) \<and>
      nft_no_match env ?g pkt (rules (chain_at env b))"
  then have net: "nft_pkt_net pkt = Some (pnet (chain_at env b))"
    and nm: "nft_no_match env ?g pkt (rules (chain_at env b))"
    by simp_all
  from nft_do_chain_loop_no_match [OF nm, of "nft_start env b s0" b]
  show "\<exists>s'. nft_do_chain (Suc (length (rules (chain_at env b)))) env pkt b s0
               = Some (Inr (policy (chain_at env b), s')) \<and>
            stats s' = nft_stats_add pkt (stats s0) \<and>
            trace_log s' = trace_log s0 @
              (if nft_trace_enabled env \<and> nft_trace_init env \<and> nf_trace (skb pkt)
               then [\<lparr>ev_chain = b,
                      ev_rulenum = int (length (filter (nft_rule_active ?g)
                        (rules (chain_at env b)))) + 1,
                      ev_type = NFT_TRACETYPE_RETURN\<rparr>,
                     \<lparr>ev_chain = b, ev_rulenum = - 1, ev_type = NFT_TRACETYPE_POLICY\<rparr>]
               else [])"
    unfolding nft_do_chain_own_net [OF net] by (auto simp: nft_tracing_def)
qed


theorem nft_do_chain_policy_witness:
  "nft_do_chain_step (ex_empty_env True) 0 ex_pkt 0 (nft_start (ex_empty_env True) 0 ex_state) =
     Return_verdict NF_DROP
       ((nft_start (ex_empty_env True) 0 ex_state)
        \<lparr>rulenum := 1,
          trace_log := [\<lparr>ev_chain = 0, ev_rulenum = 1, ev_type = NFT_TRACETYPE_RETURN\<rparr>,
                        \<lparr>ev_chain = 0, ev_rulenum = - 1, ev_type = NFT_TRACETYPE_POLICY\<rparr>],
          stats := \<lparr>pkts = 1, bytes = 60\<rparr>\<rparr>) \<and>
   nft_do_chain_step (ex_return_env False) 0 ex_pkt 0 (nft_start (ex_return_env False) 0 ex_state) =
     Return_verdict NF_DROP
       ((nft_do_chain_rule (ex_return_env False) ex_pkt (ex_rule (ex_verdict NFT_RETURN 0)) []
           (nft_start (ex_return_env False) 0 ex_state))
        \<lparr>trace_log := [], stats := \<lparr>pkts = 1, bytes = 60\<rparr>\<rparr>) \<and>
   nft_pkt_net ex_pkt = Some (pnet (chain_at (ex_nomatch_env True) 0)) \<and>
   nft_no_match (ex_nomatch_env True) 0 ex_pkt (rules (chain_at (ex_nomatch_env True) 0)) \<and>
   nft_returned (nft_do_chain 3 (ex_nomatch_env True) ex_pkt 0 ex_state) = Some NF_DROP \<and>
   map_option stats (nft_final (nft_do_chain 3 (ex_nomatch_env True) ex_pkt 0 ex_state))
     = Some \<lparr>pkts = 1, bytes = 60\<rparr> \<and>
   map_option trace_log (nft_final (nft_do_chain 3 (ex_nomatch_env True) ex_pkt 0 ex_state))
     = Some [\<lparr>ev_chain = 0, ev_rulenum = 2, ev_type = NFT_TRACETYPE_RETURN\<rparr>,
             \<lparr>ev_chain = 0, ev_rulenum = - 1, ev_type = NFT_TRACETYPE_POLICY\<rparr>]"
proof -
  let ?s1 = "nft_start (ex_empty_env True) 0 ex_state"
  have h1: "stackptr ?s1 = 0 \<and> cur_rule ?s1 = [] \<and> verdict_code (verdict (regs ?s1)) = NFT_CONTINUE"
    by (simp add: ex_defs ex_empty_env_def ex_return_env_def ex_nomatch_env_def ex_load_def ex_cmp_def)
  from nft_do_chain_policy [where s = ?s1 and env = "ex_empty_env True" and pkt = ex_pkt
      and b = 0 and g = 0, THEN conjunct1, rule_format, OF h1]
  have w1: "nft_do_chain_step (ex_empty_env True) 0 ex_pkt 0 ?s1 =
     Return_verdict NF_DROP
       (?s1\<lparr>rulenum := 1,
          trace_log := [\<lparr>ev_chain = 0, ev_rulenum = 1, ev_type = NFT_TRACETYPE_RETURN\<rparr>,
                        \<lparr>ev_chain = 0, ev_rulenum = - 1, ev_type = NFT_TRACETYPE_POLICY\<rparr>],
          stats := \<lparr>pkts = 1, bytes = 60\<rparr>\<rparr>)"
    by (simp add: nft_tracing_def nft_stats_add_def ex_defs ex_empty_env_def ex_return_env_def ex_nomatch_env_def ex_load_def ex_cmp_def)
  let ?s2 = "nft_start (ex_return_env False) 0 ex_state"
  let ?r = "ex_rule (ex_verdict NFT_RETURN 0)"
  have h2: "stackptr ?s2 = 0 \<and> cur_rule ?s2 = ?r # [] \<and> nft_rule_active 0 ?r \<and>
      verdict_code (verdict (regs (nft_do_chain_rule (ex_return_env False) ex_pkt ?r [] ?s2)))
        = NFT_RETURN"
    by (simp add: nft_rule_active_def ex_defs ex_empty_env_def ex_return_env_def ex_nomatch_env_def ex_load_def ex_cmp_def Let_def)
  from nft_do_chain_policy [where s = ?s2 and env = "ex_return_env False" and pkt = ex_pkt
      and b = 0 and g = 0 and r = ?r and rs = "[]", THEN conjunct2, THEN conjunct1, rule_format, OF h2]
  have w2: "nft_do_chain_step (ex_return_env False) 0 ex_pkt 0 ?s2 =
     Return_verdict NF_DROP
       ((nft_do_chain_rule (ex_return_env False) ex_pkt ?r [] ?s2)
        \<lparr>trace_log := [], stats := \<lparr>pkts = 1, bytes = 60\<rparr>\<rparr>)"
    by (simp add: nft_tracing_def nft_stats_add_def ex_defs ex_empty_env_def ex_return_env_def ex_nomatch_env_def ex_load_def ex_cmp_def)
  let ?E = "ex_nomatch_env True"
  have net: "nft_pkt_net ex_pkt = Some (pnet (chain_at ?E 0))"
    by (simp add: nft_pkt_net_def ex_defs ex_empty_env_def ex_return_env_def ex_nomatch_env_def ex_load_def ex_cmp_def)
  have g: "nft_genmask_cur ?E (pnet (chain_at ?E 0)) = 0"
    by (simp add: ex_defs ex_empty_env_def ex_return_env_def ex_nomatch_env_def ex_load_def ex_cmp_def)
  have nm: "nft_no_match ?E 0 ex_pkt (rules (chain_at ?E 0))"
    by (simp add: nft_no_match_def nft_rule_active_def nft_cmp_fast_eval_def Let_def
        ex_defs ex_empty_env_def ex_return_env_def ex_nomatch_env_def ex_load_def ex_cmp_def nft_code_defs)
  have len: "Suc (length (rules (chain_at ?E 0))) = 3"
    by (simp add: ex_defs ex_empty_env_def ex_return_env_def ex_nomatch_env_def ex_load_def ex_cmp_def)
  have act: "filter (nft_rule_active 0) (rules (chain_at ?E 0))
               = [\<lparr>genmask = 0, exprs = [ex_load 0x11, Cmp_fast ex_cmp]\<rparr>]"
    by (simp add: nft_rule_active_def ex_defs ex_empty_env_def ex_return_env_def ex_nomatch_env_def ex_load_def ex_cmp_def)
  from nft_do_chain_policy [where env = ?E and pkt = ex_pkt and b = 0 and ?s0.0 = ex_state,
      THEN conjunct2, THEN conjunct2, rule_format, OF conjI [OF net]] nm
  obtain s' where "nft_do_chain 3 ?E ex_pkt 0 ex_state = Some (Inr (policy (chain_at ?E 0), s'))"
    and "stats s' = nft_stats_add ex_pkt (stats ex_state)"
    and "trace_log s' = trace_log ex_state @
              (if nft_trace_enabled ?E \<and> nft_trace_init ?E \<and> nf_trace (skb ex_pkt)
               then [\<lparr>ev_chain = 0, ev_rulenum = 2, ev_type = NFT_TRACETYPE_RETURN\<rparr>,
                     \<lparr>ev_chain = 0, ev_rulenum = - 1, ev_type = NFT_TRACETYPE_POLICY\<rparr>]
               else [])"
    unfolding g len act by auto
  then have w3: "nft_returned (nft_do_chain 3 ?E ex_pkt 0 ex_state) = Some NF_DROP"
    "map_option stats (nft_final (nft_do_chain 3 ?E ex_pkt 0 ex_state)) = Some \<lparr>pkts = 1, bytes = 60\<rparr>"
    "map_option trace_log (nft_final (nft_do_chain 3 ?E ex_pkt 0 ex_state))
     = Some [\<lparr>ev_chain = 0, ev_rulenum = 2, ev_type = NFT_TRACETYPE_RETURN\<rparr>,
             \<lparr>ev_chain = 0, ev_rulenum = - 1, ev_type = NFT_TRACETYPE_POLICY\<rparr>]"
    by (simp_all add: nft_returned_def nft_final_def nft_stats_add_def ex_defs ex_empty_env_def ex_return_env_def ex_nomatch_env_def ex_load_def ex_cmp_def)
  from w1 w2 net nm w3 show ?thesis by blast
qed

text \<open>
  The claim as stated fails with tracing enabled globally, on a packet that is not marked
  for tracing (\<^verbatim>\<open>skb->nf_trace\<close> clear): on an empty base chain with policy \<^verbatim>\<open>NF_DROP\<close> the
  call counts the packet and returns \<^verbatim>\<open>NF_DROP\<close>, and has emitted no event.
\<close>

theorem nft_do_chain_policy_counterexample:
  "nft_trace_enabled (ex_empty_env True) \<and> nft_trace_init (ex_empty_env True) \<and>
   \<not> nf_trace (skb ex_untraced_pkt) \<and>
   rules (chain_at (ex_empty_env True) 0) = [] \<and>
   nft_returned (nft_do_chain 1 (ex_empty_env True) ex_untraced_pkt 0 ex_state) = Some NF_DROP \<and>
   map_option stats (nft_final (nft_do_chain 1 (ex_empty_env True) ex_untraced_pkt 0 ex_state))
     = Some \<lparr>pkts = 1, bytes = 60\<rparr> \<and>
   map_option trace_log (nft_final (nft_do_chain 1 (ex_empty_env True) ex_untraced_pkt 0 ex_state))
     = Some []"
  by (simp add: nft_run_simps ex_empty_env_def ex_untraced_pkt_def)

subsection \<open>Generations\<close>



subsection \<open>Jump, goto and return\<close>

text \<open>
  C5. A rule of chain A that leaves \<open>Jump\<close> while the stack has room pushes one frame, which
  records A, the rules after the jumping rule and the rule number, and enters the target at
  its first rule with rule number 0. Whatever passes follow inside the target and the chains
  it calls, when the stack is back at the depth of the jump the evaluator is in A at the
  rule right after the jump, with the saved rule number. \<open>Return\<close>, and the end of a chain's
  rule list, with a non-empty stack pop the top frame and resume there. A rule that leaves
  \<open>Goto\<close> enters the target and leaves the stack as it is: when the stack later drops below
  that depth, the evaluator resumes at the frame that was on top before the goto, the caller
  of A, and not in A.
\<close>

theorem nft_do_chain_jump_goto:
  "(cur_rule s = r # rs \<and> nft_rule_active g r \<and>
      verdict_code (verdict (regs (nft_do_chain_rule env pkt r rs s))) = NFT_JUMP \<and>
      stackptr s < NFT_JUMP_STACK_SIZE \<longrightarrow>
      (\<exists>s'. nft_do_chain_step env g pkt b s = Next_rule s' \<and>
            cur_chain s' = verdict_chain (verdict (regs (nft_do_chain_rule env pkt r rs s))) \<and>
            cur_rule s' = rules (chain_at env (cur_chain s')) \<and> rulenum s' = 0 \<and>
            stackptr s' = stackptr s + 1 \<and>
            jumpstack s' = (jumpstack s)(stackptr s :=
              \<lparr>js_chain = cur_chain s, js_rule = rs, js_rulenum = rulenum s + 1\<rparr>) \<and>
            (\<forall>t. nft_nested env g pkt b (stackptr s) s' t \<and> stackptr t = stackptr s \<longrightarrow>
                 cur_chain t = cur_chain s \<and> cur_rule t = rs \<and> rulenum t = rulenum s + 1))) \<and>
   (0 < stackptr s \<and>
      (cur_rule s = [] \<and> verdict_code (verdict (regs s)) = NFT_CONTINUE \<or>
       cur_rule s = r # rs \<and> nft_rule_active g r \<and>
         verdict_code (verdict (regs (nft_do_chain_rule env pkt r rs s))) = NFT_RETURN) \<longrightarrow>
      (\<exists>s'. nft_do_chain_step env g pkt b s = Next_rule s' \<and>
            stackptr s' = stackptr s - 1 \<and> jumpstack s' = jumpstack s \<and>
            cur_chain s' = js_chain (jumpstack s (stackptr s - 1)) \<and>
            cur_rule s' = js_rule (jumpstack s (stackptr s - 1)) \<and>
            rulenum s' = js_rulenum (jumpstack s (stackptr s - 1)))) \<and>
   (cur_rule s = r # rs \<and> nft_rule_active g r \<and>
      verdict_code (verdict (regs (nft_do_chain_rule env pkt r rs s))) = NFT_GOTO \<longrightarrow>
      (\<exists>s'. nft_do_chain_step env g pkt b s = Next_rule s' \<and>
            cur_chain s' = verdict_chain (verdict (regs (nft_do_chain_rule env pkt r rs s))) \<and>
            cur_rule s' = rules (chain_at env (cur_chain s')) \<and> rulenum s' = 0 \<and>
            stackptr s' = stackptr s \<and> jumpstack s' = jumpstack s \<and>
            (\<forall>n t. stackptr s = Suc n \<and> nft_nested env g pkt b n s' t \<and> stackptr t = n \<longrightarrow>
                 cur_chain t = js_chain (jumpstack s n) \<and> cur_rule t = js_rule (jumpstack s n) \<and>
                 rulenum t = js_rulenum (jumpstack s n))))"
proof (intro conjI impI)
  let ?u = "nft_do_chain_rule env pkt r rs s"
  assume a: "cur_rule s = r # rs \<and> nft_rule_active g r \<and>
      verdict_code (verdict (regs ?u)) = NFT_JUMP \<and> stackptr s < NFT_JUMP_STACK_SIZE"
  let ?f = "\<lparr>js_chain = cur_chain s, js_rule = rs, js_rulenum = rulenum s + 1\<rparr>"
  let ?s' = "do_chain env
       ((nft_trace_packet env pkt
           (?u\<lparr>jumpstack := (jumpstack s)(stackptr s := ?f), stackptr := stackptr s + 1\<rparr>)
           (cur_chain s) (rulenum s + 1) NFT_TRACETYPE_RULE)
        \<lparr>cur_chain := verdict_chain (verdict (regs ?u))\<rparr>)"
  from a have step: "nft_do_chain_step env g pkt b s = Next_rule ?s'"
    by (simp add: nft_do_chain_step_rule nft_do_chain_verdict_eq nft_do_chain_goto_def Let_def)
  have sp: "stackptr s < stackptr ?s'" and top: "jumpstack ?s' (stackptr s) = ?f"
    by simp_all
  have resume: "cur_chain t = cur_chain s \<and> cur_rule t = rs \<and> rulenum t = rulenum s + 1"
    if t: "nft_nested env g pkt b (stackptr s) ?s' t \<and> stackptr t = stackptr s" for t
  proof -
    from t have "nft_nested env g pkt b (stackptr s) ?s' t" and eq: "stackptr t = stackptr s"
      by simp_all
    from nft_nested_frame [OF this(1) sp] eq top show ?thesis by simp
  qed
  show "\<exists>s'. nft_do_chain_step env g pkt b s = Next_rule s' \<and>
            cur_chain s' = verdict_chain (verdict (regs ?u)) \<and>
            cur_rule s' = rules (chain_at env (cur_chain s')) \<and> rulenum s' = 0 \<and>
            stackptr s' = stackptr s + 1 \<and>
            jumpstack s' = (jumpstack s)(stackptr s := ?f) \<and>
            (\<forall>t. nft_nested env g pkt b (stackptr s) s' t \<and> stackptr t = stackptr s \<longrightarrow>
                 cur_chain t = cur_chain s \<and> cur_rule t = rs \<and> rulenum t = rulenum s + 1)"
  proof (intro exI [of _ ?s'] conjI allI)
    show "nft_do_chain_step env g pkt b s = Next_rule ?s'" by (rule step)
    show "\<And>t. nft_nested env g pkt b (stackptr s) ?s' t \<and> stackptr t = stackptr s \<longrightarrow>
                 cur_chain t = cur_chain s \<and> cur_rule t = rs \<and> rulenum t = rulenum s + 1"
      using resume by (rule impI)
  qed simp_all
next
  let ?u = "nft_do_chain_rule env pkt r rs s"
  assume a: "0 < stackptr s \<and>
      (cur_rule s = [] \<and> verdict_code (verdict (regs s)) = NFT_CONTINUE \<or>
       cur_rule s = r # rs \<and> nft_rule_active g r \<and> verdict_code (verdict (regs ?u)) = NFT_RETURN)"
  then have sp: "0 < stackptr s" by simp
  from a consider (e) "cur_rule s = []" "verdict_code (verdict (regs s)) = NFT_CONTINUE"
    | (r) "cur_rule s = r # rs" "nft_rule_active g r" "verdict_code (verdict (regs ?u)) = NFT_RETURN"
    by blast
  then show "\<exists>s'. nft_do_chain_step env g pkt b s = Next_rule s' \<and>
            stackptr s' = stackptr s - 1 \<and> jumpstack s' = jumpstack s \<and>
            cur_chain s' = js_chain (jumpstack s (stackptr s - 1)) \<and>
            cur_rule s' = js_rule (jumpstack s (stackptr s - 1)) \<and>
            rulenum s' = js_rulenum (jumpstack s (stackptr s - 1))"
  proof cases
    case e
    with sp show ?thesis
      by (simp add: nft_do_chain_step_Nil nft_do_chain_verdict_eq nft_do_chain_pop_def Let_def)
  next
    case r
    with sp show ?thesis
      by (simp add: nft_do_chain_step_rule nft_do_chain_verdict_eq nft_do_chain_pop_def Let_def)
  qed
next
  let ?u = "nft_do_chain_rule env pkt r rs s"
  assume a: "cur_rule s = r # rs \<and> nft_rule_active g r \<and>
      verdict_code (verdict (regs ?u)) = NFT_GOTO"
  let ?s' = "do_chain env
       ((nft_trace_packet env pkt ?u (cur_chain s) (rulenum s + 1) NFT_TRACETYPE_RULE)
        \<lparr>cur_chain := verdict_chain (verdict (regs ?u))\<rparr>)"
  from a have step: "nft_do_chain_step env g pkt b s = Next_rule ?s'"
    by (simp add: nft_do_chain_step_rule nft_do_chain_verdict_eq nft_do_chain_goto_def Let_def)
  have stack: "stackptr ?s' = stackptr s" "jumpstack ?s' = jumpstack s"
    by simp_all
  have resume: "cur_chain t = js_chain (jumpstack s n) \<and> cur_rule t = js_rule (jumpstack s n) \<and>
                 rulenum t = js_rulenum (jumpstack s n)"
    if t: "stackptr s = Suc n \<and> nft_nested env g pkt b n ?s' t \<and> stackptr t = n" for n t
  proof -
    from t have n: "n < stackptr ?s'" and "nft_nested env g pkt b n ?s' t" and eq: "stackptr t = n"
      by simp_all
    from nft_nested_frame [OF this(2) n] eq stack show ?thesis by simp
  qed
  show "\<exists>s'. nft_do_chain_step env g pkt b s = Next_rule s' \<and>
            cur_chain s' = verdict_chain (verdict (regs ?u)) \<and>
            cur_rule s' = rules (chain_at env (cur_chain s')) \<and> rulenum s' = 0 \<and>
            stackptr s' = stackptr s \<and> jumpstack s' = jumpstack s \<and>
            (\<forall>n t. stackptr s = Suc n \<and> nft_nested env g pkt b n s' t \<and> stackptr t = n \<longrightarrow>
                 cur_chain t = js_chain (jumpstack s n) \<and> cur_rule t = js_rule (jumpstack s n) \<and>
                 rulenum t = js_rulenum (jumpstack s n))"
  proof (intro exI [of _ ?s'] conjI allI)
    show "nft_do_chain_step env g pkt b s = Next_rule ?s'" by (rule step)
    show "\<And>n t. stackptr s = Suc n \<and> nft_nested env g pkt b n ?s' t \<and> stackptr t = n \<longrightarrow>
                 cur_chain t = js_chain (jumpstack s n) \<and> cur_rule t = js_rule (jumpstack s n) \<and>
                 rulenum t = js_rulenum (jumpstack s n)"
      using resume by (rule impI)
  qed simp_all
qed

theorem nft_do_chain_jump_goto_witness:
  "nft_do_chain_step ex_call_env 0 ex_pkt 0 ex_call0 = Next_rule ex_call1 \<and>
   cur_chain ex_call1 = 1 \<and> stackptr ex_call1 = 1 \<and>
   jumpstack ex_call1 0 = \<lparr>js_chain = 0, js_rule = [ex_rule (ex_verdict NF_DROP 0)], js_rulenum = 1\<rparr> \<and>
   nft_do_chain_step ex_call_env 0 ex_pkt 0 ex_call1 = Next_rule ex_call2 \<and>
   cur_chain ex_call2 = 2 \<and> stackptr ex_call2 = 1 \<and> jumpstack ex_call2 = jumpstack ex_call1 \<and>
   nft_do_chain_step ex_call_env 0 ex_pkt 0 ex_call2 = Next_rule ex_call3 \<and>
   stackptr ex_call3 = 0 \<and> cur_chain ex_call3 = 0 \<and>
   cur_rule ex_call3 = [ex_rule (ex_verdict NF_DROP 0)] \<and> rulenum ex_call3 = 1 \<and>
   cur_chain ex_call3 = js_chain (jumpstack ex_call1 0)"
proof -
  let ?J = "ex_rule (ex_verdict NFT_JUMP 1)" and ?D = "ex_rule (ex_verdict NF_DROP 0)"
  let ?G = "ex_rule (ex_verdict NFT_GOTO 2)" and ?R = "ex_rule (ex_verdict NFT_RETURN 0)"
  note inst = nft_do_chain_jump_goto [where env = ex_call_env and g = 0 and pkt = ex_pkt and b = 0]
  have h1: "cur_rule ex_call0 = ?J # [?D] \<and> nft_rule_active 0 ?J \<and>
      verdict_code (verdict (regs (nft_do_chain_rule ex_call_env ex_pkt ?J [?D] ex_call0))) = NFT_JUMP \<and>
      stackptr ex_call0 < NFT_JUMP_STACK_SIZE"
    by (simp add: ex_call_states ex_call_verdicts ex_active NFT_JUMP_STACK_SIZE_def)
  from inst [where s = ex_call0 and r = ?J and rs = "[?D]", THEN conjunct1, rule_format, OF h1]
  obtain s' where s': "nft_do_chain_step ex_call_env 0 ex_pkt 0 ex_call0 = Next_rule s'"
    and j: "cur_chain s' = 1" "stackptr s' = 1"
      "jumpstack s' = (jumpstack ex_call0)(0 := \<lparr>js_chain = 0, js_rule = [?D], js_rulenum = 1\<rparr>)"
    and resume: "\<And>t. nft_nested ex_call_env 0 ex_pkt 0 0 s' t \<Longrightarrow> stackptr t = 0 \<Longrightarrow>
                 cur_chain t = 0 \<and> cur_rule t = [?D] \<and> rulenum t = 1"
    by (auto simp: ex_call_states ex_call_verdicts)
  from s' have s1: "s' = ex_call1"
    by (simp add: ex_call_steps)
  have "nft_nested ex_call_env 0 ex_pkt 0 0 ex_call1 ex_call2"
    by (rule nested_pass [OF nested_here]) (simp_all add: ex_call_steps ex_call_states)
  then have "nft_nested ex_call_env 0 ex_pkt 0 0 ex_call1 ex_call3"
    by (rule nested_pass) (simp_all add: ex_call_steps ex_call_states)
  from resume [unfolded s1, OF this] have w1: "cur_chain ex_call3 = 0"
    "cur_rule ex_call3 = [?D]" "rulenum ex_call3 = 1"
    by (simp_all add: ex_call_states)
  have h2: "0 < stackptr ex_call2 \<and>
      (cur_rule ex_call2 = [] \<and> verdict_code (verdict (regs ex_call2)) = NFT_CONTINUE \<or>
       cur_rule ex_call2 = ?R # [] \<and> nft_rule_active 0 ?R \<and>
         verdict_code (verdict (regs (nft_do_chain_rule ex_call_env ex_pkt ?R [] ex_call2))) = NFT_RETURN)"
    by (simp add: ex_call_states ex_call_verdicts ex_active)
  from inst [where s = ex_call2 and r = ?R and rs = "[]", THEN conjunct2, THEN conjunct1,
      rule_format, OF h2]
  have w2: "stackptr ex_call3 = 0"
    by (auto simp: ex_call_steps ex_call_states)
  have h3: "cur_rule ex_call1 = ?G # [] \<and> nft_rule_active 0 ?G \<and>
      verdict_code (verdict (regs (nft_do_chain_rule ex_call_env ex_pkt ?G [] ex_call1))) = NFT_GOTO"
    by (simp add: ex_call_states ex_call_verdicts ex_active)
  from inst [where s = ex_call1 and r = ?G and rs = "[]", THEN conjunct2, THEN conjunct2,
      rule_format, OF h3]
  obtain s2 where s2: "nft_do_chain_step ex_call_env 0 ex_pkt 0 ex_call1 = Next_rule s2"
    and w3: "cur_chain s2 = 2" "stackptr s2 = 1" "jumpstack s2 = jumpstack ex_call1"
    and caller: "\<And>n t. stackptr ex_call1 = Suc n \<Longrightarrow> nft_nested ex_call_env 0 ex_pkt 0 n s2 t \<Longrightarrow>
                   stackptr t = n \<Longrightarrow> cur_chain t = js_chain (jumpstack ex_call1 n)"
    by (auto simp: ex_call_states)
  from s2 have s2': "s2 = ex_call2"
    by (simp add: ex_call_steps)
  have "nft_nested ex_call_env 0 ex_pkt 0 0 ex_call2 ex_call3"
    by (rule nested_pass [OF nested_here]) (simp_all add: ex_call_steps ex_call_states)
  from caller [unfolded s2', OF _ this] have w4: "cur_chain ex_call3 = js_chain (jumpstack ex_call1 0)"
    by (simp add: ex_call_states)
  from s' [unfolded s1] j [unfolded s1] ex_call_steps(2,3) ex_call_states(8) w1 w2 w3 [unfolded s2'] w4
  show ?thesis by (intro conjI)
qed

subsection \<open>The capacity of the jump stack\<close>

text \<open>
  C4. A rule that leaves \<open>Jump\<close> when \<^verbatim>\<open>stackptr\<close> has reached \<^verbatim>\<open>NFT_JUMP_STACK_SIZE\<close> runs
  into \<^verbatim>\<open>BUG_ON\<close>: the traversal is aborted there and nothing is stored. No pass writes the
  jump stack at an index from \<^verbatim>\<open>NFT_JUMP_STACK_SIZE\<close> on, and a call that returns leaves
  that memory as it found it, with \<^verbatim>\<open>stackptr\<close> within the capacity. When the rule set
  bounds the nesting of jumps (a depth that every jump lowers and no goto raises, at most
  the capacity for the base chain), no call reaches the \<^verbatim>\<open>BUG_ON\<close>, whatever the fuel.
\<close>

theorem nft_do_chain_jumpstack_bounds:
  "(cur_rule s = r # rs \<and> nft_rule_active g r \<and>
      verdict_code (verdict (regs (nft_do_chain_rule env pkt r rs s))) = NFT_JUMP \<and>
      NFT_JUMP_STACK_SIZE \<le> stackptr s \<longrightarrow>
      nft_do_chain_step env g pkt b s = Oops BUG_ON_jumpstack) \<and>
   (nft_do_chain_step env g pkt b s = Next_rule s' \<longrightarrow>
      (\<forall>i. NFT_JUMP_STACK_SIZE \<le> i \<longrightarrow> jumpstack s' i = jumpstack s i)) \<and>
   (nft_do_chain fuel env pkt b s0 = Some (Inr (v, s'')) \<longrightarrow>
      (\<forall>i. NFT_JUMP_STACK_SIZE \<le> i \<longrightarrow> jumpstack s'' i = jumpstack s0 i) \<and>
      stackptr s'' \<le> NFT_JUMP_STACK_SIZE) \<and>
   (nft_jump_depth env pkt dp \<and> dp b \<le> NFT_JUMP_STACK_SIZE \<longrightarrow>
      nft_do_chain fuel env pkt b s0 \<noteq> Some (Inl BUG_ON_jumpstack))"
proof (intro conjI impI)
  assume "cur_rule s = r # rs \<and> nft_rule_active g r \<and>
      verdict_code (verdict (regs (nft_do_chain_rule env pkt r rs s))) = NFT_JUMP \<and>
      NFT_JUMP_STACK_SIZE \<le> stackptr s"
  then show "nft_do_chain_step env g pkt b s = Oops BUG_ON_jumpstack"
    by (simp add: nft_do_chain_step_rule nft_do_chain_verdict_eq Let_def)
next
  assume "nft_do_chain_step env g pkt b s = Next_rule s'"
  then show "\<forall>i. NFT_JUMP_STACK_SIZE \<le> i \<longrightarrow> jumpstack s' i = jumpstack s i"
    by (simp add: nft_do_chain_step_jumpstack_next)
next
  assume run: "nft_do_chain fuel env pkt b s0 = Some (Inr (v, s''))"
  let ?I = "\<lambda>t. (\<forall>i. NFT_JUMP_STACK_SIZE \<le> i \<longrightarrow> jumpstack t i = jumpstack s0 i) \<and>
                 stackptr t \<le> NFT_JUMP_STACK_SIZE"
  have "?I s''"
  proof (cases "nft_pkt_net pkt = Some (pnet (chain_at env b))")
    case True
    from run [unfolded nft_do_chain_own_net [OF True]] show ?thesis
    proof (rule nft_do_chain_loop_invariant [where I = ?I])
      show "?I (nft_start env b s0)" by simp
    next
      fix t t'
      assume "?I t" and "nft_do_chain_step env (nft_genmask_cur env (pnet (chain_at env b))) pkt b t
                          = Next_rule t'"
      with nft_do_chain_step_jumpstack_next [OF this(2)] show "?I t'" by simp
    next
      fix t w t'
      assume "?I t" and "nft_do_chain_step env (nft_genmask_cur env (pnet (chain_at env b))) pkt b t
                          = Return_verdict w t'"
      with nft_do_chain_step_jumpstack_return [OF this(2)] show "?I t'" by simp
    qed
  next
    case False
    with run have "s'' = s0\<lparr>cur_chain := b, stackptr := 0\<rparr>"
      by (auto simp: nft_do_chain_def Let_def split: option.splits if_splits)
    then show ?thesis by simp
  qed
  then show "\<forall>i. NFT_JUMP_STACK_SIZE \<le> i \<longrightarrow> jumpstack s'' i = jumpstack s0 i"
    and "stackptr s'' \<le> NFT_JUMP_STACK_SIZE"
    by simp_all
next
  assume a: "nft_jump_depth env pkt dp \<and> dp b \<le> NFT_JUMP_STACK_SIZE"
  show "nft_do_chain fuel env pkt b s0 \<noteq> Some (Inl BUG_ON_jumpstack)"
  proof (cases "nft_pkt_net pkt = Some (pnet (chain_at env b))")
    case True
    have "nft_depth_inv dp (dp b) (nft_start env b s0)"
      by (simp add: nft_depth_inv_def)
    with a show ?thesis
      unfolding nft_do_chain_own_net [OF True]
      by (intro nft_do_chain_loop_no_bug [where dp = dp and d = "dp b"] nft_state_wf_start) simp_all
  next
    case False
    then show ?thesis
      by (auto simp: nft_do_chain_def Let_def split: option.splits)
  qed
qed

theorem nft_do_chain_jumpstack_bounds_witness:
  "nft_do_chain_step ex_self_jump_env 0 ex_pkt 0
       ((nft_start ex_self_jump_env 0 ex_state)\<lparr>stackptr := 16\<rparr>) = Oops BUG_ON_jumpstack \<and>
   nft_do_chain 17 ex_self_jump_env ex_pkt 0 ex_state = Some (Inl BUG_ON_jumpstack) \<and>
   nft_do_chain_step ex_call_env 0 ex_pkt 0 ex_call0 = Next_rule ex_call1 \<and>
   jumpstack ex_call1 16 = jumpstack ex_call0 16 \<and>
   nft_returned (nft_do_chain 4 ex_call_env ex_pkt 0 ex_state) = Some NF_DROP \<and>
   map_option (\<lambda>s. jumpstack s 16) (nft_final (nft_do_chain 4 ex_call_env ex_pkt 0 ex_state))
     = Some (jumpstack ex_state 16) \<and>
   nft_jump_depth ex_call_env ex_pkt ex_call_depth \<and>
   ex_call_depth 0 \<le> NFT_JUMP_STACK_SIZE \<and>
   nft_do_chain 4 ex_call_env ex_pkt 0 ex_state \<noteq> Some (Inl BUG_ON_jumpstack)"
proof -
  let ?J = "ex_rule (ex_verdict NFT_JUMP 0)"
  let ?s = "(nft_start ex_self_jump_env 0 ex_state)\<lparr>stackptr := 16\<rparr>"
  have h1: "cur_rule ?s = ?J # [] \<and> nft_rule_active 0 ?J \<and>
      verdict_code (verdict (regs (nft_do_chain_rule ex_self_jump_env ex_pkt ?J [] ?s))) = NFT_JUMP \<and>
      NFT_JUMP_STACK_SIZE \<le> stackptr ?s"
    by (simp add: ex_self_jump_env_def ex_env_def ex_chain_def ex_active NFT_JUMP_STACK_SIZE_def)
  from nft_do_chain_jumpstack_bounds [where s = ?s and r = ?J and rs = "[]" and g = 0
      and env = ex_self_jump_env and pkt = ex_pkt and b = 0, THEN conjunct1, rule_format, OF h1]
  have w1: "nft_do_chain_step ex_self_jump_env 0 ex_pkt 0 ?s = Oops BUG_ON_jumpstack" .
  have w2: "nft_do_chain 17 ex_self_jump_env ex_pkt 0 ex_state = Some (Inl BUG_ON_jumpstack)"
    by (simp add: nft_run_simps ex_self_jump_env_def)
  from nft_do_chain_jumpstack_bounds [where s = ex_call0 and s' = ex_call1 and g = 0
      and env = ex_call_env and pkt = ex_pkt and b = 0, THEN conjunct2, THEN conjunct1,
      rule_format, OF ex_call_steps(1), of 16]
  have w3: "jumpstack ex_call1 16 = jumpstack ex_call0 16"
    by (simp add: NFT_JUMP_STACK_SIZE_def)
  obtain v s' where run: "nft_do_chain 4 ex_call_env ex_pkt 0 ex_state = Some (Inr (v, s'))"
    and v: "v = NF_DROP"
    by (simp add: nft_run_simps ex_call_env_def)
  from nft_do_chain_jumpstack_bounds [where fuel = 4 and env = ex_call_env and pkt = ex_pkt
      and b = 0 and ?s0.0 = ex_state and v = v and s'' = s', THEN conjunct2, THEN conjunct2,
      THEN conjunct1, rule_format, OF run]
  have "jumpstack s' 16 = jumpstack ex_state 16"
    by (simp add: NFT_JUMP_STACK_SIZE_def)
  with run v have w4: "nft_returned (nft_do_chain 4 ex_call_env ex_pkt 0 ex_state) = Some NF_DROP"
    "map_option (\<lambda>s. jumpstack s 16) (nft_final (nft_do_chain 4 ex_call_env ex_pkt 0 ex_state))
     = Some (jumpstack ex_state 16)"
    by (simp_all add: nft_returned_def nft_final_def)
  have d: "ex_call_depth 0 \<le> NFT_JUMP_STACK_SIZE"
    by (simp add: ex_call_depth_def NFT_JUMP_STACK_SIZE_def)
  from nft_do_chain_jumpstack_bounds [where fuel = 4 and env = ex_call_env and pkt = ex_pkt
      and b = 0 and ?s0.0 = ex_state and dp = ex_call_depth, THEN conjunct2, THEN conjunct2,
      THEN conjunct2, rule_format, OF conjI [OF ex_call_depth_ok d]]
  have w5: "nft_do_chain 4 ex_call_env ex_pkt 0 ex_state \<noteq> Some (Inl BUG_ON_jumpstack)" .
  from w1 w2 ex_call_steps(1) w3 w4 ex_call_depth_ok d w5 show ?thesis
    by (intro conjI)
qed

subsection \<open>Termination\<close>

text \<open>
  C3, as the code has it. When the rule set has no cycle (every jump and goto leads to a
  chain of smaller rank) and no chain has more than \<open>N\<close> rules, a call of \<^verbatim>\<open>nft_do_chain\<close>
  on any packet that has a device and on any start memory returns a disposition or the
  policy, or stops in the \<^verbatim>\<open>BUG_ON\<close> of the full jump stack. It does so within
  \<open>(N + 1) * (N + 2) ^ k + 1\<close> passes of its loop, \<open>k\<close> the rank of the base chain; more fuel
  changes nothing; and each pass evaluates at most one rule, so a call that returns on
  \<open>fuel\<close> passes has evaluated at most \<open>fuel\<close> rules.
\<close>

theorem nft_do_chain_terminates:
  assumes "nft_chain_rank env pkt rk" and "\<forall>c. length (rules (chain_at env c)) \<le> N"
    and "nft_pkt_net pkt = Some net"
  shows "((\<exists>v s'. nft_do_chain (nft_pass_bound N (rk b)) env pkt b s0 = Some (Inr (v, s'))) \<or>
          nft_do_chain (nft_pass_bound N (rk b)) env pkt b s0 = Some (Inl BUG_ON_jumpstack)) \<and>
         (\<forall>k. nft_do_chain (nft_pass_bound N (rk b) + k) env pkt b s0
                = nft_do_chain (nft_pass_bound N (rk b)) env pkt b s0) \<and>
         (\<forall>fuel v s'. nft_do_chain fuel env pkt b s0 = Some (Inr (v, s')) \<longrightarrow>
                length (evaluated s') \<le> length (evaluated s0) + fuel)"
proof (intro conjI allI impI)
  let ?B = "nft_pass_bound N (rk b)"
  have returns: "\<exists>res. nft_do_chain ?B env pkt b s0 = Some res"
  proof (cases "nft_pkt_net pkt = Some (pnet (chain_at env b))")
    case True
    from assms(2) have "length (rules (chain_at env b)) \<le> N" by simp
    then have "nft_weight N rk b (rules (chain_at env b)) \<le> (N + 1) * (N + 2) ^ rk b"
      by (simp add: nft_weight_def)
    then have "nft_measure N rk (nft_start env b s0) < ?B"
      by (simp add: nft_measure_def nft_pass_bound_def)
    with assms(1,2) show ?thesis
      unfolding nft_do_chain_own_net [OF True]
      by (intro nft_do_chain_loop_terminates [where rk = rk and N = N] nft_state_wf_start)
  next
    case False
    then show ?thesis
      by (auto simp: nft_do_chain_def Let_def split: option.splits)
  qed
  then obtain res where res: "nft_do_chain ?B env pkt b s0 = Some res" ..
  from assms(3) have "nft_do_chain ?B env pkt b s0 \<noteq> Some (Inl NULL_device)"
    by (simp add: nft_do_chain_def Let_def nft_do_chain_loop_device)
  with res have "res \<noteq> Inl NULL_device" by simp
  then have "(\<exists>v s'. res = Inr (v, s')) \<or> res = Inl BUG_ON_jumpstack"
    by (cases res) (auto intro: nft_oops.exhaust)
  with res show "(\<exists>v s'. nft_do_chain ?B env pkt b s0 = Some (Inr (v, s'))) \<or>
          nft_do_chain ?B env pkt b s0 = Some (Inl BUG_ON_jumpstack)"
    by auto
  show "nft_do_chain (?B + k) env pkt b s0 = nft_do_chain ?B env pkt b s0" for k
  proof (cases "nft_pkt_net pkt = Some (pnet (chain_at env b))")
    case True
    from returns show ?thesis
      unfolding nft_do_chain_own_net [OF True]
      by (auto dest: nft_do_chain_loop_more_fuel [where k = k])
  next
    case False
    then show ?thesis
      by (auto simp: nft_do_chain_def Let_def split: option.splits)
  qed
  show "length (evaluated s') \<le> length (evaluated s0) + fuel"
    if run: "nft_do_chain fuel env pkt b s0 = Some (Inr (v, s'))" for fuel v s'
  proof (cases "nft_pkt_net pkt = Some (pnet (chain_at env b))")
    case True
    from run [unfolded nft_do_chain_own_net [OF True]] show ?thesis
      by (auto dest: nft_do_chain_loop_evaluated_length)
  next
    case False
    with run have "s' = s0\<lparr>cur_chain := b, stackptr := 0\<rparr>"
      by (auto simp: nft_do_chain_def Let_def split: option.splits if_splits)
    then show ?thesis by simp
  qed
qed

theorem nft_do_chain_terminates_witness:
  "nft_chain_rank ex_call_env ex_pkt ex_call_rank \<and>
   (\<forall>c. length (rules (chain_at ex_call_env c)) \<le> 2) \<and>
   nft_pkt_net ex_pkt = Some 0 \<and>
   nft_pass_bound 2 (ex_call_rank 0) = 49 \<and>
   nft_do_chain 49 ex_call_env ex_pkt 0 ex_state \<noteq> None \<and>
   nft_returned (nft_do_chain 49 ex_call_env ex_pkt 0 ex_state) = Some NF_DROP \<and>
   map_option (length \<circ> evaluated) (nft_final (nft_do_chain 49 ex_call_env ex_pkt 0 ex_state))
     = Some 4"
proof -
  have b: "nft_pass_bound 2 (ex_call_rank 0) = 49"
    by (simp add: nft_pass_bound_def ex_call_rank_def)
  have net: "nft_pkt_net ex_pkt = Some 0"
    by (simp add: nft_pkt_net_def ex_pkt_def)
  from nft_do_chain_terminates [OF ex_call_rank_ok ex_call_length net, of 0 ex_state,
      THEN conjunct1]
  have w1: "nft_do_chain 49 ex_call_env ex_pkt 0 ex_state \<noteq> None"
    unfolding b by auto
  have w2: "nft_returned (nft_do_chain 49 ex_call_env ex_pkt 0 ex_state) = Some NF_DROP"
    "map_option (length \<circ> evaluated) (nft_final (nft_do_chain 49 ex_call_env ex_pkt 0 ex_state))
     = Some 4"
    by (simp_all add: nft_run_simps ex_call_env_def)
  from ex_call_rank_ok ex_call_length net b w1 w2 show ?thesis
    by (intro conjI)
qed

text \<open>
  The claim as stated fails on a rule set without cycles, because a chain is evaluated
  again each time it is jumped to. A base chain of three rules that each jump to a chain of
  nine rules, each of which stores a value in the data register \<^verbatim>\<open>data[4]\<close> and leaves the verdict
  \<open>Continue\<close>: the call evaluates 30 rules and returns the policy, against the 12 active
  rules and the 16 frames of the claimed bound.
\<close>

theorem nft_do_chain_terminates_counterexample:
  "nft_returned (nft_do_chain 34 ex_repeat_env ex_pkt 0 ex_state) = Some NF_ACCEPT \<and>
   map_option (length \<circ> evaluated) (nft_final (nft_do_chain 34 ex_repeat_env ex_pkt 0 ex_state))
     = Some 30 \<and>
   nft_total_visible_rules ex_repeat_env (nft_genmask_cur ex_repeat_env 0) [0, 1]
     + NFT_JUMP_STACK_SIZE = 28"
  by (simp add: nft_run_simps ex_repeat_env_def ex_noop_def ex_load_def
      nft_total_visible_rules_def nft_rule_active_def)

end
